theory Spec2Isabelle
  imports Main "HOL-Library.Sublist"
begin

section \<open>Strings and character classes\<close>

text \<open>
  A Python \<open>str\<close> is a sequence of Unicode code points, so a string is modelled as a list
  of natural numbers. \<open>str\<close> turns an ASCII literal into that representation.
\<close>

type_synonym pychar = nat
type_synonym pystr = "nat list"

definition str :: "string \<Rightarrow> pystr" where
  "str s = map of_char s"

definition in_ranges :: "(nat \<times> nat) list \<Rightarrow> nat \<Rightarrow> bool" where
  "in_ranges rs c = list_ex (\<lambda>r. fst r \<le> c \<and> c \<le> snd r) rs"

text \<open>
  The character classes of \<open>re\<close> on \<open>str\<close> patterns come from the Unicode database of the
  interpreter (Unicode 14.0 in CPython 3.11). \<open>\d\<close> is general category Nd; every block
  below starts at a digit zero and runs through whole decades.
\<close>

definition decimal_ranges :: "(nat \<times> nat) list" where
  "decimal_ranges =
    [(48, 57), (1632, 1641), (1776, 1785), (1984, 1993), (2406, 2415), (2534, 2543),
     (2662, 2671), (2790, 2799), (2918, 2927), (3046, 3055), (3174, 3183), (3302, 3311),
     (3430, 3439), (3558, 3567), (3664, 3673), (3792, 3801), (3872, 3881), (4160, 4169),
     (4240, 4249), (6112, 6121), (6160, 6169), (6470, 6479), (6608, 6617), (6784, 6793),
     (6800, 6809), (6992, 7001), (7088, 7097), (7232, 7241), (7248, 7257), (42528, 42537),
     (43216, 43225), (43264, 43273), (43472, 43481), (43504, 43513), (43600, 43609),
     (44016, 44025), (65296, 65305), (66720, 66729), (68912, 68921), (69734, 69743),
     (69872, 69881), (69942, 69951), (70096, 70105), (70384, 70393), (70736, 70745),
     (70864, 70873), (71248, 71257), (71360, 71369), (71472, 71481), (71904, 71913),
     (72016, 72025), (72784, 72793), (73040, 73049), (73120, 73129), (92768, 92777),
     (92864, 92873), (93008, 93017), (120782, 120831), (123200, 123209), (123632, 123641),
     (125264, 125273), (130032, 130041)]"

definition is_decimal :: "pychar \<Rightarrow> bool" where
  "is_decimal c = in_ranges decimal_ranges c"

definition decimal_value :: "pychar \<Rightarrow> int" where
  "decimal_value c =
     (case find (\<lambda>r. fst r \<le> c \<and> c \<le> snd r) decimal_ranges of
        Some r \<Rightarrow> int ((c - fst r) mod 10)
      | None \<Rightarrow> 0)"

text \<open>\<open>\s\<close> and \<open>str.strip()\<close> share one notion of white space (\<open>str.isspace\<close>).\<close>

definition space_ranges :: "(nat \<times> nat) list" where
  "space_ranges =
    [(9, 13), (28, 32), (133, 133), (160, 160), (5760, 5760), (8192, 8202), (8232, 8233),
     (8239, 8239), (8287, 8287), (12288, 12288)]"

definition is_space :: "pychar \<Rightarrow> bool" where
  "is_space c = in_ranges space_ranges c"

text \<open>
  \<open>\w\<close>, which decides \<open>\b\<close>, is \<open>str.isalnum\<close> or the underscore. Below U+00AA the
  alphanumeric characters are the ASCII digits and letters; \<open>alnum_ranges\<close> lists the
  alphanumeric ranges from U+00AA on.
\<close>

definition alnum_ranges :: "(nat \<times> nat) list" where
  "alnum_ranges =
    [(170, 170), (178, 179), (181, 181), (185, 186), (188, 190),
     (192, 214), (216, 246), (248, 705), (710, 721), (736, 740), (748, 748), (750, 750),
     (880, 884), (886, 887), (890, 893), (895, 895), (902, 902), (904, 906), (908, 908),
     (910, 929), (931, 1013), (1015, 1153), (1162, 1327), (1329, 1366), (1369, 1369),
     (1376, 1416), (1488, 1514), (1519, 1522), (1568, 1610), (1632, 1641), (1646, 1647),
     (1649, 1747), (1749, 1749), (1765, 1766), (1774, 1788), (1791, 1791), (1808, 1808),
     (1810, 1839), (1869, 1957), (1969, 1969), (1984, 2026), (2036, 2037), (2042, 2042),
     (2048, 2069), (2074, 2074), (2084, 2084), (2088, 2088), (2112, 2136), (2144, 2154),
     (2160, 2183), (2185, 2190), (2208, 2249), (2308, 2361), (2365, 2365), (2384, 2384),
     (2392, 2401), (2406, 2415), (2417, 2432), (2437, 2444), (2447, 2448), (2451, 2472),
     (2474, 2480), (2482, 2482), (2486, 2489), (2493, 2493), (2510, 2510), (2524, 2525),
     (2527, 2529), (2534, 2545), (2548, 2553), (2556, 2556), (2565, 2570), (2575, 2576),
     (2579, 2600), (2602, 2608), (2610, 2611), (2613, 2614), (2616, 2617), (2649, 2652),
     (2654, 2654), (2662, 2671), (2674, 2676), (2693, 2701), (2703, 2705), (2707, 2728),
     (2730, 2736), (2738, 2739), (2741, 2745), (2749, 2749), (2768, 2768), (2784, 2785),
     (2790, 2799), (2809, 2809), (2821, 2828), (2831, 2832), (2835, 2856), (2858, 2864),
     (2866, 2867), (2869, 2873), (2877, 2877), (2908, 2909), (2911, 2913), (2918, 2927),
     (2929, 2935), (2947, 2947), (2949, 2954), (2958, 2960), (2962, 2965), (2969, 2970),
     (2972, 2972), (2974, 2975), (2979, 2980), (2984, 2986), (2990, 3001), (3024, 3024),
     (3046, 3058), (3077, 3084), (3086, 3088), (3090, 3112), (3114, 3129), (3133, 3133),
     (3160, 3162), (3165, 3165), (3168, 3169), (3174, 3183), (3192, 3198), (3200, 3200),
     (3205, 3212), (3214, 3216), (3218, 3240), (3242, 3251), (3253, 3257), (3261, 3261),
     (3293, 3294), (3296, 3297), (3302, 3311), (3313, 3314), (3332, 3340), (3342, 3344),
     (3346, 3386), (3389, 3389), (3406, 3406), (3412, 3414), (3416, 3425), (3430, 3448),
     (3450, 3455), (3461, 3478), (3482, 3505), (3507, 3515), (3517, 3517), (3520, 3526),
     (3558, 3567), (3585, 3632), (3634, 3635), (3648, 3654), (3664, 3673), (3713, 3714),
     (3716, 3716), (3718, 3722), (3724, 3747), (3749, 3749), (3751, 3760), (3762, 3763),
     (3773, 3773), (3776, 3780), (3782, 3782), (3792, 3801), (3804, 3807), (3840, 3840),
     (3872, 3891), (3904, 3911), (3913, 3948), (3976, 3980), (4096, 4138), (4159, 4169),
     (4176, 4181), (4186, 4189), (4193, 4193), (4197, 4198), (4206, 4208), (4213, 4225),
     (4238, 4238), (4240, 4249), (4256, 4293), (4295, 4295), (4301, 4301), (4304, 4346),
     (4348, 4680), (4682, 4685), (4688, 4694), (4696, 4696), (4698, 4701), (4704, 4744),
     (4746, 4749), (4752, 4784), (4786, 4789), (4792, 4798), (4800, 4800), (4802, 4805),
     (4808, 4822), (4824, 4880), (4882, 4885), (4888, 4954), (4969, 4988), (4992, 5007),
     (5024, 5109), (5112, 5117), (5121, 5740), (5743, 5759), (5761, 5786), (5792, 5866),
     (5870, 5880), (5888, 5905), (5919, 5937), (5952, 5969), (5984, 5996), (5998, 6000),
     (6016, 6067), (6103, 6103), (6108, 6108), (6112, 6121), (6128, 6137), (6160, 6169),
     (6176, 6264), (6272, 6276), (6279, 6312), (6314, 6314), (6320, 6389), (6400, 6430),
     (6470, 6509), (6512, 6516), (6528, 6571), (6576, 6601), (6608, 6618), (6656, 6678),
     (6688, 6740), (6784, 6793), (6800, 6809), (6823, 6823), (6917, 6963), (6981, 6988),
     (6992, 7001), (7043, 7072), (7086, 7141), (7168, 7203), (7232, 7241), (7245, 7293),
     (7296, 7304), (7312, 7354), (7357, 7359), (7401, 7404), (7406, 7411), (7413, 7414),
     (7418, 7418), (7424, 7615), (7680, 7957), (7960, 7965), (7968, 8005), (8008, 8013),
     (8016, 8023), (8025, 8025), (8027, 8027), (8029, 8029), (8031, 8061), (8064, 8116),
     (8118, 8124), (8126, 8126), (8130, 8132), (8134, 8140), (8144, 8147), (8150, 8155),
     (8160, 8172), (8178, 8180), (8182, 8188), (8304, 8305), (8308, 8313), (8319, 8329),
     (8336, 8348), (8450, 8450), (8455, 8455), (8458, 8467), (8469, 8469), (8473, 8477),
     (8484, 8484), (8486, 8486), (8488, 8488), (8490, 8493), (8495, 8505), (8508, 8511),
     (8517, 8521), (8526, 8526), (8528, 8585), (9312, 9371), (9450, 9471), (10102, 10131),
     (11264, 11492), (11499, 11502), (11506, 11507), (11517, 11517), (11520, 11557),
     (11559, 11559), (11565, 11565), (11568, 11623), (11631, 11631), (11648, 11670),
     (11680, 11686), (11688, 11694), (11696, 11702), (11704, 11710), (11712, 11718),
     (11720, 11726), (11728, 11734), (11736, 11742), (11823, 11823), (12293, 12295),
     (12321, 12329), (12337, 12341), (12344, 12348), (12353, 12438), (12445, 12447),
     (12449, 12538), (12540, 12543), (12549, 12591), (12593, 12686), (12690, 12693),
     (12704, 12735), (12784, 12799), (12832, 12841), (12872, 12879), (12881, 12895),
     (12928, 12937), (12977, 12991), (13312, 19903), (19968, 42124), (42192, 42237),
     (42240, 42508), (42512, 42539), (42560, 42606), (42623, 42653), (42656, 42735),
     (42775, 42783), (42786, 42888), (42891, 42954), (42960, 42961), (42963, 42963),
     (42965, 42969), (42994, 43009), (43011, 43013), (43015, 43018), (43020, 43042),
     (43056, 43061), (43072, 43123), (43138, 43187), (43216, 43225), (43250, 43255),
     (43259, 43259), (43261, 43262), (43264, 43301), (43312, 43334), (43360, 43388),
     (43396, 43442), (43471, 43481), (43488, 43492), (43494, 43518), (43520, 43560),
     (43584, 43586), (43588, 43595), (43600, 43609), (43616, 43638), (43642, 43642),
     (43646, 43695), (43697, 43697), (43701, 43702), (43705, 43709), (43712, 43712),
     (43714, 43714), (43739, 43741), (43744, 43754), (43762, 43764), (43777, 43782),
     (43785, 43790), (43793, 43798), (43808, 43814), (43816, 43822), (43824, 43866),
     (43868, 43881), (43888, 44002), (44016, 44025), (44032, 55203), (55216, 55238),
     (55243, 55291), (63744, 64109), (64112, 64217), (64256, 64262), (64275, 64279),
     (64285, 64285), (64287, 64296), (64298, 64310), (64312, 64316), (64318, 64318),
     (64320, 64321), (64323, 64324), (64326, 64433), (64467, 64829), (64848, 64911),
     (64914, 64967), (65008, 65019), (65136, 65140), (65142, 65276), (65296, 65305),
     (65313, 65338), (65345, 65370), (65382, 65470), (65474, 65479), (65482, 65487),
     (65490, 65495), (65498, 65500), (65536, 65547), (65549, 65574), (65576, 65594),
     (65596, 65597), (65599, 65613), (65616, 65629), (65664, 65786), (65799, 65843),
     (65856, 65912), (65930, 65931), (66176, 66204), (66208, 66256), (66273, 66299),
     (66304, 66339), (66349, 66378), (66384, 66421), (66432, 66461), (66464, 66499),
     (66504, 66511), (66513, 66517), (66560, 66717), (66720, 66729), (66736, 66771),
     (66776, 66811), (66816, 66855), (66864, 66915), (66928, 66938), (66940, 66954),
     (66956, 66962), (66964, 66965), (66967, 66977), (66979, 66993), (66995, 67001),
     (67003, 67004), (67072, 67382), (67392, 67413), (67424, 67431), (67456, 67461),
     (67463, 67504), (67506, 67514), (67584, 67589), (67592, 67592), (67594, 67637),
     (67639, 67640), (67644, 67644), (67647, 67669), (67672, 67702), (67705, 67742),
     (67751, 67759), (67808, 67826), (67828, 67829), (67835, 67867), (67872, 67897),
     (67968, 68023), (68028, 68047), (68050, 68096), (68112, 68115), (68117, 68119),
     (68121, 68149), (68160, 68168), (68192, 68222), (68224, 68255), (68288, 68295),
     (68297, 68324), (68331, 68335), (68352, 68405), (68416, 68437), (68440, 68466),
     (68472, 68497), (68521, 68527), (68608, 68680), (68736, 68786), (68800, 68850),
     (68858, 68899), (68912, 68921), (69216, 69246), (69248, 69289), (69296, 69297),
     (69376, 69415), (69424, 69445), (69457, 69460), (69488, 69505), (69552, 69579),
     (69600, 69622), (69635, 69687), (69714, 69743), (69745, 69746), (69749, 69749),
     (69763, 69807), (69840, 69864), (69872, 69881), (69891, 69926), (69942, 69951),
     (69956, 69956), (69959, 69959), (69968, 70002), (70006, 70006), (70019, 70066),
     (70081, 70084), (70096, 70106), (70108, 70108), (70113, 70132), (70144, 70161),
     (70163, 70187), (70272, 70278), (70280, 70280), (70282, 70285), (70287, 70301),
     (70303, 70312), (70320, 70366), (70384, 70393), (70405, 70412), (70415, 70416),
     (70419, 70440), (70442, 70448), (70450, 70451), (70453, 70457), (70461, 70461),
     (70480, 70480), (70493, 70497), (70656, 70708), (70727, 70730), (70736, 70745),
     (70751, 70753), (70784, 70831), (70852, 70853), (70855, 70855), (70864, 70873),
     (71040, 71086), (71128, 71131), (71168, 71215), (71236, 71236), (71248, 71257),
     (71296, 71338), (71352, 71352), (71360, 71369), (71424, 71450), (71472, 71483),
     (71488, 71494), (71680, 71723), (71840, 71922), (71935, 71942), (71945, 71945),
     (71948, 71955), (71957, 71958), (71960, 71983), (71999, 71999), (72001, 72001),
     (72016, 72025), (72096, 72103), (72106, 72144), (72161, 72161), (72163, 72163),
     (72192, 72192), (72203, 72242), (72250, 72250), (72272, 72272), (72284, 72329),
     (72349, 72349), (72368, 72440), (72704, 72712), (72714, 72750), (72768, 72768),
     (72784, 72812), (72818, 72847), (72960, 72966), (72968, 72969), (72971, 73008),
     (73030, 73030), (73040, 73049), (73056, 73061), (73063, 73064), (73066, 73097),
     (73112, 73112), (73120, 73129), (73440, 73458), (73648, 73648), (73664, 73684),
     (73728, 74649), (74752, 74862), (74880, 75075), (77712, 77808), (77824, 78894),
     (82944, 83526), (92160, 92728), (92736, 92766), (92768, 92777), (92784, 92862),
     (92864, 92873), (92880, 92909), (92928, 92975), (92992, 92995), (93008, 93017),
     (93019, 93025), (93027, 93047), (93053, 93071), (93760, 93846), (93952, 94026),
     (94032, 94032), (94099, 94111), (94176, 94177), (94179, 94179), (94208, 100343),
     (100352, 101589), (101632, 101640), (110576, 110579), (110581, 110587), (110589, 110590),
     (110592, 110882), (110928, 110930), (110948, 110951), (110960, 111355), (113664, 113770),
     (113776, 113788), (113792, 113800), (113808, 113817), (119520, 119539), (119648, 119672),
     (119808, 119892), (119894, 119964), (119966, 119967), (119970, 119970), (119973, 119974),
     (119977, 119980), (119982, 119993), (119995, 119995), (119997, 120003), (120005, 120069),
     (120071, 120074), (120077, 120084), (120086, 120092), (120094, 120121), (120123, 120126),
     (120128, 120132), (120134, 120134), (120138, 120144), (120146, 120485), (120488, 120512),
     (120514, 120538), (120540, 120570), (120572, 120596), (120598, 120628), (120630, 120654),
     (120656, 120686), (120688, 120712), (120714, 120744), (120746, 120770), (120772, 120779),
     (120782, 120831), (122624, 122654), (123136, 123180), (123191, 123197), (123200, 123209),
     (123214, 123214), (123536, 123565), (123584, 123627), (123632, 123641), (124896, 124902),
     (124904, 124907), (124909, 124910), (124912, 124926), (124928, 125124), (125127, 125135),
     (125184, 125251), (125259, 125259), (125264, 125273), (126065, 126123), (126125, 126127),
     (126129, 126132), (126209, 126253), (126255, 126269), (126464, 126467), (126469, 126495),
     (126497, 126498), (126500, 126500), (126503, 126503), (126505, 126514), (126516, 126519),
     (126521, 126521), (126523, 126523), (126530, 126530), (126535, 126535), (126537, 126537),
     (126539, 126539), (126541, 126543), (126545, 126546), (126548, 126548), (126551, 126551),
     (126553, 126553), (126555, 126555), (126557, 126557), (126559, 126559), (126561, 126562),
     (126564, 126564), (126567, 126570), (126572, 126578), (126580, 126583), (126585, 126588),
     (126590, 126590), (126592, 126601), (126603, 126619), (126625, 126627), (126629, 126633),
     (126635, 126651), (127232, 127244), (130032, 130041), (131072, 173791), (173824, 177976),
     (177984, 178205), (178208, 183969), (183984, 191456), (194560, 195101), (196608, 201546)]"

definition is_alnum :: "pychar \<Rightarrow> bool" where
  "is_alnum c =
     (is_decimal c
      \<or> (if c < 170 then (65 \<le> c \<and> c \<le> 90) \<or> (97 \<le> c \<and> c \<le> 122)
          else in_ranges alnum_ranges c))"

definition is_word :: "pychar \<Rightarrow> bool" where
  "is_word c = (is_alnum c \<or> c = 95)"


section \<open>The name parser\<close>

datatype py_error = ValueError | FileExistsError | NotADirectoryError | FileNotFoundError
  | ShutilError | ToolNotFound

text \<open>
  \<open>int(s)\<close> on a captured group. The patterns only ever capture runs of decimal digits,
  for which \<open>int\<close> reads the digit values in base ten; any other argument is modelled as
  the \<open>ValueError\<close> that \<open>int\<close> raises on a malformed literal.
\<close>

definition py_int :: "pystr \<Rightarrow> py_error + int" where
  "py_int s =
     (if s \<noteq> [] \<and> list_all is_decimal s
      then Inr (foldl (\<lambda>acc c. acc * 10 + decimal_value c) 0 s)
      else Inl ValueError)"

record ParsedTV =
  tv_show :: pystr
  tv_year :: "int option"
  season :: int
  episode :: int

record ParsedMovie =
  title :: pystr
  movie_year :: int

definition dot :: pychar where "dot = 46"
definition space :: pychar where "space = 32"
definition newline :: pychar where "newline = 10"

text \<open>
  Under \<open>re.IGNORECASE\<close> the literal \<open>S\<close> matches \<open>S\<close>, \<open>s\<close> and U+017F (long s), the
  literal \<open>E\<close> matches \<open>E\<close> and \<open>e\<close>; the period and the digits of the patterns are
  uncased and match themselves only.
\<close>

definition is_S :: "pychar \<Rightarrow> bool" where
  "is_S c = (c = 83 \<or> c = 115 \<or> c = 383)"

definition is_E :: "pychar \<Rightarrow> bool" where
  "is_E c = (c = 69 \<or> c = 101)"

text \<open>\<open>\b\<close>: the characters on the two sides differ in being word characters.\<close>

definition at_boundary :: "pychar option \<Rightarrow> pystr \<Rightarrow> bool" where
  "at_boundary prev rest =
     ((case prev of None \<Rightarrow> False | Some c \<Rightarrow> is_word c)
        \<noteq> (case rest of [] \<Rightarrow> False | c # _ \<Rightarrow> is_word c))"

text \<open>\<open>19\d{2}|20\d{2}\<close> at the head of the input: the captured year and what follows.\<close>

fun year_re :: "pystr \<Rightarrow> (pystr \<times> pystr) option" where
  "year_re (a # b # c # d # rest) =
     (if ((a = 49 \<and> b = 57) \<or> (a = 50 \<and> b = 48)) \<and> is_decimal c \<and> is_decimal d
      then Some ([a, b, c, d], rest) else None)"
| "year_re _ = None"

text \<open>\<open>\.S(?P<season>\d{2})E(?P<ep>\d{2})\b\<close> at the head of the input.\<close>

fun tv_tail :: "pystr \<Rightarrow> (pystr \<times> pystr) option" where
  "tv_tail (p # s # d1 # d2 # e # d3 # d4 # rest) =
     (if p = dot \<and> is_S s \<and> is_decimal d1 \<and> is_decimal d2 \<and> is_E e
         \<and> is_decimal d3 \<and> is_decimal d4 \<and> at_boundary (Some d4) rest
      then Some ([d1, d2], [d3, d4]) else None)"
| "tv_tail _ = None"

text \<open>
  \<open>(?:\.(?P<year>...))?\<close> followed by the season marker. The optional group is greedy:
  the engine first tries with the year and falls back to the empty alternative.
\<close>

definition dot_year :: "pystr \<Rightarrow> (pystr \<times> pystr) option" where
  "dot_year s = (case s of [] \<Rightarrow> None | c # cs \<Rightarrow> if c = dot then year_re cs else None)"

definition tv_after_show :: "pystr \<Rightarrow> (pystr option \<times> pystr \<times> pystr) option" where
  "tv_after_show s =
     (case (case dot_year s of None \<Rightarrow> None
            | Some (y, rest) \<Rightarrow> map_option (\<lambda>(se, ep). (Some y, se, ep)) (tv_tail rest)) of
        Some r \<Rightarrow> Some r
      | None \<Rightarrow> map_option (\<lambda>(se, ep). (None, se, ep)) (tv_tail s))"

text \<open>
  \<open>^(?P<show>.+?)\<close>: the lazy group takes one character that is not a newline, then the
  engine tries the rest of the pattern and extends the group by one character on failure.
\<close>

record tv_groups =
  g_show :: pystr
  g_year :: "pystr option"
  g_season :: pystr
  g_ep :: pystr

fun tv_scan :: "pystr \<Rightarrow> pystr \<Rightarrow> tv_groups option" where
  "tv_scan acc [] = None"
| "tv_scan acc (c # cs) =
     (if c = newline then None
      else case tv_after_show cs of
             Some (y, se, ep) \<Rightarrow>
               Some \<lparr>g_show = acc @ [c], g_year = y, g_season = se, g_ep = ep\<rparr>
           | None \<Rightarrow> tv_scan (acc @ [c]) cs)"

definition TV_RE :: "pystr \<Rightarrow> tv_groups option" where
  "TV_RE release = tv_scan [] release"

text \<open>\<open>^(?P<title>.+?)\.(?P<year>19\d{2}|20\d{2})\b\<close>.\<close>

definition movie_after_title :: "pystr \<Rightarrow> pystr option" where
  "movie_after_title s =
     (case dot_year s of
        Some ([a, b, c, d], rest) \<Rightarrow> if at_boundary (Some d) rest then Some [a, b, c, d] else None
      | _ \<Rightarrow> None)"

record movie_groups =
  g_title :: pystr
  g_myear :: pystr

fun movie_scan :: "pystr \<Rightarrow> pystr \<Rightarrow> movie_groups option" where
  "movie_scan acc [] = None"
| "movie_scan acc (c # cs) =
     (if c = newline then None
      else case movie_after_title cs of
             Some y \<Rightarrow> Some \<lparr>g_title = acc @ [c], g_myear = y\<rparr>
           | None \<Rightarrow> movie_scan (acc @ [c]) cs)"

definition MOVIE_RE :: "pystr \<Rightarrow> movie_groups option" where
  "MOVIE_RE release = movie_scan [] release"

text \<open>\<open>slug_to_name\<close>: periods to spaces, \<open>re.sub(r"\s+", " ", s)\<close>, \<open>strip()\<close>.\<close>

definition replace_dots :: "pystr \<Rightarrow> pystr" where
  "replace_dots s = map (\<lambda>c. if c = dot then space else c) s"

function collapse_ws :: "pystr \<Rightarrow> pystr" where
  "collapse_ws [] = []"
| "collapse_ws (c # cs) =
     (if is_space c then space # collapse_ws (dropWhile is_space cs)
      else c # collapse_ws cs)"
  by pat_completeness auto
termination
  by (relation "measure length") (auto simp: less_Suc_eq_le length_dropWhile_le)

definition strip :: "pystr \<Rightarrow> pystr" where
  "strip s = rev (dropWhile is_space (rev (dropWhile is_space s)))"

definition slug_to_name :: "pystr \<Rightarrow> pystr" where
  "slug_to_name s = strip (collapse_ws (replace_dots s))"

definition parse_tv :: "pystr \<Rightarrow> py_error + ParsedTV option" where
  "parse_tv release =
     (case TV_RE release of
        None \<Rightarrow> Inr None
      | Some m \<Rightarrow>
          (case (case g_year m of None \<Rightarrow> Inr None
                 | Some y \<Rightarrow> (case py_int y of Inl e \<Rightarrow> Inl e | Inr n \<Rightarrow> Inr (Some n))) of
             Inl e \<Rightarrow> Inl e
           | Inr yr \<Rightarrow>
               (case py_int (g_season m) of
                  Inl e \<Rightarrow> Inl e
                | Inr se \<Rightarrow>
                    (case py_int (g_ep m) of
                       Inl e \<Rightarrow> Inl e
                     | Inr ep \<Rightarrow>
                         Inr (Some \<lparr>tv_show = slug_to_name (g_show m), tv_year = yr,
                                    season = se, episode = ep\<rparr>)))))"

definition parse_movie :: "pystr \<Rightarrow> py_error + ParsedMovie option" where
  "parse_movie release =
     (case MOVIE_RE release of
        None \<Rightarrow> Inr None
      | Some m \<Rightarrow>
          (case py_int (g_myear m) of
             Inl e \<Rightarrow> Inl e
           | Inr yr \<Rightarrow> Inr (Some \<lparr>title = slug_to_name (g_title m), movie_year = yr\<rparr>)))"


section \<open>Paths and the file system\<close>

text \<open>
  A path is the list of its components below the root. The file system is an association
  list from paths to nodes, in the order in which a recursive walk meets the entries; the
  root is always a directory.
\<close>

type_synonym path = "pystr list"

datatype node = File nat | Dir

type_synonym filesystem = "(path \<times> node) list"

definition lookup :: "filesystem \<Rightarrow> path \<Rightarrow> node option" where
  "lookup fs p = (if p = [] then Some Dir else map_of fs p)"

definition path_exists :: "filesystem \<Rightarrow> path \<Rightarrow> bool" where
  "path_exists fs p = (lookup fs p \<noteq> None)"

definition is_dir :: "filesystem \<Rightarrow> path \<Rightarrow> bool" where
  "is_dir fs p = (lookup fs p = Some Dir)"

definition is_file :: "filesystem \<Rightarrow> path \<Rightarrow> bool" where
  "is_file fs p = (case lookup fs p of Some (File sz) \<Rightarrow> True | _ \<Rightarrow> False)"

definition name_of :: "path \<Rightarrow> pystr" where
  "name_of p = (if p = [] then [] else last p)"

definition parent_of :: "path \<Rightarrow> path" where
  "parent_of p = butlast p"

text \<open>\<open>p / s\<close> for a single component \<open>s\<close>; pathlib drops an empty component.\<close>

definition joinpath :: "path \<Rightarrow> pystr \<Rightarrow> path" where
  "joinpath p s = (if s = [] then p else p @ [s])"

text \<open>\<open>str(p)\<close> of an absolute path.\<close>

definition path_str :: "path \<Rightarrow> pystr" where
  "path_str p = (if p = [] then [47] else concat (map (\<lambda>c. 47 # c) p))"

text \<open>
  \<open>PurePath.suffix\<close>: the name from its last period on, unless that period is the first
  or the last character of the name.
\<close>

definition suffix_of :: "pystr \<Rightarrow> pystr" where
  "suffix_of nm =
     (let k = length (takeWhile (\<lambda>c. c \<noteq> dot) (rev nm))
      in if dot \<in> set nm \<and> 0 < k \<and> Suc k < length nm
         then drop (length nm - Suc k) nm else [])"

text \<open>
  \<open>str.lower()\<close>. The table holds every code point whose lower case contains an ASCII
  character; any other character is kept as it is, which leaves comparisons with the
  ASCII extensions of \<open>VIDEO_EXTS\<close> as Python decides them.
\<close>

definition lower_char :: "pychar \<Rightarrow> pystr" where
  "lower_char c =
     (if 65 \<le> c \<and> c \<le> 90 then [c + 32]
      else if c = 8490 then [107]
      else if c = 304 then [105, 775]
      else [c])"

definition str_lower :: "pystr \<Rightarrow> pystr" where
  "str_lower s = concat (map lower_char s)"

definition VIDEO_EXTS :: "pystr list" where
  "VIDEO_EXTS = [str ''.mkv'', str ''.mp4'', str ''.avi'', str ''.mov'', str ''.m4v'',
                 str ''.wmv'']"

text \<open>\<open>root.rglob(...)\<close>: everything below \<open>root\<close>, in walk order.\<close>

definition rglob :: "filesystem \<Rightarrow> path \<Rightarrow> path list" where
  "rglob fs root =
     (if is_dir fs root then filter (\<lambda>p. strict_prefix root p) (map fst fs) else [])"

definition find_first_rar :: "filesystem \<Rightarrow> path \<Rightarrow> path option" where
  "find_first_rar fs root =
     find (\<lambda>p. is_file fs p) (filter (\<lambda>p. suffix (str ''.rar'') (name_of p)) (rglob fs root))"

definition find_video_files :: "filesystem \<Rightarrow> path \<Rightarrow> path list" where
  "find_video_files fs root =
     filter (\<lambda>p. is_file fs p \<and> str_lower (suffix_of (name_of p)) \<in> set VIDEO_EXTS)
       (rglob fs root)"

text \<open>
  The file system does not change during one scan, so the \<open>FileNotFoundError\<close> branch of
  \<open>find_large_extensionless\<close> (a file vanishing between listing and \<open>stat\<close>) is not
  reachable in the model.
\<close>

definition find_large_extensionless :: "filesystem \<Rightarrow> path \<Rightarrow> nat \<Rightarrow> path list" where
  "find_large_extensionless fs root min_bytes =
     filter (\<lambda>p. case lookup fs p of
                    Some (File sz) \<Rightarrow> suffix_of (name_of p) = [] \<and> min_bytes \<le> sz
                  | _ \<Rightarrow> False)
       (rglob fs root)"

text \<open>\<open>Path.mkdir(parents=True, exist_ok=True)\<close>: every missing ancestor is created.\<close>

definition mkdir_step :: "path \<Rightarrow> path \<Rightarrow> py_error + filesystem \<Rightarrow> py_error + filesystem" where
  "mkdir_step target q r =
     (case r of
        Inl e \<Rightarrow> Inl e
      | Inr fs \<Rightarrow>
          (case lookup fs q of
             Some Dir \<Rightarrow> Inr fs
           | Some (File sz) \<Rightarrow> Inl (if q = target then FileExistsError else NotADirectoryError)
           | None \<Rightarrow> Inr (fs @ [(q, Dir)])))"

definition mkdir_p :: "filesystem \<Rightarrow> path \<Rightarrow> py_error + filesystem" where
  "mkdir_p fs p = fold (mkdir_step p) (prefixes p) (Inr fs)"

text \<open>
  \<open>shutil.move(src, dst)\<close>: into \<open>dst\<close> when that is a directory, onto \<open>dst\<close> otherwise;
  a file replaces an existing file, as \<open>os.rename\<close> does.
\<close>

definition rename_entry :: "path \<Rightarrow> path \<Rightarrow> path \<times> node \<Rightarrow> path \<times> node" where
  "rename_entry src dst e =
     (if prefix src (fst e) then (dst @ drop (length src) (fst e), snd e) else e)"

definition shutil_move :: "filesystem \<Rightarrow> path \<Rightarrow> path \<Rightarrow> py_error + filesystem" where
  "shutil_move fs src dst =
     (let real_dst = (if is_dir fs dst \<and> src \<noteq> dst then joinpath dst (name_of src) else dst)
      in if is_dir fs dst \<and> src \<noteq> dst \<and> path_exists fs real_dst then Inl ShutilError
         else if \<not> path_exists fs src then Inl FileNotFoundError
         else if src = real_dst then Inr fs
         else if \<not> is_dir fs (parent_of real_dst) then Inl FileNotFoundError
         else if is_dir fs src \<and> prefix src real_dst then Inl ShutilError
         else if is_dir fs src \<and> is_file fs real_dst then Inl FileExistsError
         else Inr (map (rename_entry src real_dst) (filter (\<lambda>e. fst e \<noteq> real_dst) fs)))"

section \<open>The world: file system, logs and performed calls\<close>

text \<open>
  \<open>log\<close> and \<open>audit_log\<close> are the lines appended to the two log files (without their time
  stamps); the log directory is kept apart from the media file system. \<open>performed\<close>
  records every mutating call that was really made, in order.
\<close>

datatype action = Mkdir path | Move path path | RunCmd "pystr list"

datatype audit_event = Unrar_failed pystr pystr pystr

record world =
  fs :: filesystem
  log :: "pystr list"
  audit_log :: "audit_event list"
  performed :: "action list"

text \<open>
  What the run depends on from outside: the date string of \<open>strftime("%Y-%m-%d")\<close>, the
  process identifier, and the extraction tool, which maps its command line and the file
  system to an exit code, its output and the file system it leaves (or cannot be started).
\<close>

record env =
  today :: pystr
  pid :: nat
  tool :: "pystr list \<Rightarrow> filesystem \<Rightarrow> py_error + (int \<times> pystr \<times> filesystem)"

definition log_line :: "pystr \<Rightarrow> world \<Rightarrow> world" where
  "log_line msg w = w\<lparr>log := log w @ [msg]\<rparr>"

definition audit :: "audit_event \<Rightarrow> world \<Rightarrow> world" where
  "audit ev w = w\<lparr>audit_log := audit_log w @ [ev]\<rparr>"

definition ensure_dir :: "path \<Rightarrow> bool \<Rightarrow> world \<Rightarrow> py_error + world" where
  "ensure_dir p run w =
     (if path_exists (fs w) p then Inr w
      else if run then
        (case mkdir_p (fs w) p of
           Inl e \<Rightarrow> Inl e
         | Inr fs' \<Rightarrow>
             Inr (log_line (str ''mkdir -p '' @ path_str p)
                    (w\<lparr>fs := fs', performed := performed w @ [Mkdir p]\<rparr>)))
      else Inr (log_line (str ''mkdir -p '' @ path_str p) w))"

definition move_path :: "path \<Rightarrow> path \<Rightarrow> bool \<Rightarrow> world \<Rightarrow> py_error + world" where
  "move_path src dst run w =
     (case ensure_dir (parent_of dst) run w of
        Inl e \<Rightarrow> Inl e
      | Inr w1 \<Rightarrow>
          (case (if run then
                   (case shutil_move (fs w1) src dst of
                      Inl e \<Rightarrow> Inl e
                    | Inr fs' \<Rightarrow>
                        Inr (w1\<lparr>fs := fs', performed := performed w1 @ [Move src dst]\<rparr>))
                 else Inr w1) of
             Inl e \<Rightarrow> Inl e
           | Inr w2 \<Rightarrow>
               Inr (log_line (str ''move '' @ path_str src @ str '' -> '' @ path_str dst) w2)))"

definition join_sp :: "pystr list \<Rightarrow> pystr" where
  "join_sp xs = (case xs of [] \<Rightarrow> [] | x # r \<Rightarrow> x @ concat (map (\<lambda>y. space # y) r))"

definition extract_rar ::
  "(pystr list \<Rightarrow> filesystem \<Rightarrow> py_error + (int \<times> pystr \<times> filesystem))
     \<Rightarrow> path \<Rightarrow> path \<Rightarrow> bool \<Rightarrow> world \<Rightarrow> py_error + ((bool \<times> pystr) \<times> world)" where
  "extract_rar run_cmd rar dest_dir run w =
     (case ensure_dir dest_dir run w of
        Inl e \<Rightarrow> Inl e
      | Inr w1 \<Rightarrow>
          (let cmd = [str ''unrar'', str ''e'', str ''-o+'', path_str rar, path_str dest_dir];
               w2 = log_line (str ''unrar '' @ join_sp (tl cmd)) w1
           in if \<not> run then Inr ((True, str ''DRY_RUN''), w2)
              else (case run_cmd cmd (fs w2) of
                      Inl e \<Rightarrow> Inl e
                    | Inr (code, out, fs') \<Rightarrow>
                        Inr ((code = 0, out),
                             w2\<lparr>fs := fs', performed := performed w2 @ [RunCmd cmd]\<rparr>))))"


section \<open>Formatting and the fixed paths\<close>

function str_of_nat :: "nat \<Rightarrow> pystr" where
  "str_of_nat n = (if n < 10 then [48 + n] else str_of_nat (n div 10) @ [48 + n mod 10])"
  by pat_completeness auto
termination
  by (relation "measure id") auto

declare str_of_nat.simps [simp del]

definition str_of_int :: "int \<Rightarrow> pystr" where
  "str_of_int i = (if i < 0 then 45 # str_of_nat (nat (- i)) else str_of_nat (nat i))"

text \<open>The format \<open>{:02d}\<close>: padded with zeros on the left to two characters.\<close>

definition fmt_02d :: "int \<Rightarrow> pystr" where
  "fmt_02d i = (let s = str_of_int i in if length s < 2 then 48 # s else s)"

definition COMPLETE :: path where
  "COMPLETE = [str ''mnt'', str ''jace_complete'']"

definition MEDIA :: path where
  "MEDIA = [str ''mnt'', str ''jace_media'']"

definition DST_TV :: path where
  "DST_TV = joinpath (joinpath MEDIA (str ''Video'')) (str ''TV'')"

definition DST_MOVIES :: path where
  "DST_MOVIES = joinpath (joinpath MEDIA (str ''Video'')) (str ''Movies'')"

definition RECYCLE :: path where
  "RECYCLE = joinpath (joinpath COMPLETE (str ''#recycle'')) (str ''process-downloads'')"

section \<open>Retirement and the item processor\<close>

definition recycle_cand :: "env \<Rightarrow> path \<Rightarrow> nat \<Rightarrow> path" where
  "recycle_cand e src_folder i =
     joinpath (joinpath RECYCLE (today e)) (name_of src_folder @ [dot] @ str_of_nat i)"

definition unique_recycle_dest :: "env \<Rightarrow> filesystem \<Rightarrow> path \<Rightarrow> path" where
  "unique_recycle_dest e fsys src_folder =
     (let base = joinpath (joinpath RECYCLE (today e)) (name_of src_folder)
      in if \<not> path_exists fsys base then base
         else (case find (\<lambda>i. \<not> path_exists fsys (recycle_cand e src_folder i)) [1..<1000] of
                 Some i \<Rightarrow> recycle_cand e src_folder i
               | None \<Rightarrow> recycle_cand e src_folder (pid e)))"

datatype kind = TV | Movie

datatype status = Ok | Error

record ItemResult =
  kind :: kind
  release :: pystr
  status :: status
  reason :: "pystr option"
  dest :: "pystr option"
  path :: pystr
  recycled_to :: "pystr option"

text \<open>
  The \<open>if rar: ... elif vids: ... elif extless: ... else: ...\<close> chain of both processors
  as a tagged choice. A \<open>Path\<close> is always true, so \<open>if rar\<close> asks for \<open>rar is not None\<close>.
\<close>

datatype strategy = Archive path | VideoFiles "path list" | LargeUnlabeledFiles "path list"
  | NoMedia

definition select_strategy :: "path option \<Rightarrow> path list \<Rightarrow> path list \<Rightarrow> strategy" where
  "select_strategy rar vids extless =
     (case rar of
        Some r \<Rightarrow> Archive r
      | None \<Rightarrow>
          if vids \<noteq> [] then VideoFiles vids
          else if extless \<noteq> [] then LargeUnlabeledFiles extless
          else NoMedia)"

definition content_strategy :: "filesystem \<Rightarrow> path \<Rightarrow> strategy" where
  "content_strategy fsys folder =
     select_strategy (find_first_rar fsys folder) (find_video_files fsys folder)
       (find_large_extensionless fsys folder (100 * 1024 * 1024))"

text \<open>The two \<open>for\<close> loops; each pass sets \<open>moved_any\<close>.\<close>

fun move_videos :: "path \<Rightarrow> path list \<Rightarrow> bool \<Rightarrow> bool \<times> world \<Rightarrow> py_error + (bool \<times> world)" where
  "move_videos dest_dir [] run (moved_any, w) = Inr (moved_any, w)"
| "move_videos dest_dir (v # vs) run (moved_any, w) =
     (case move_path v (joinpath dest_dir (name_of v)) run w of
        Inl e \<Rightarrow> Inl e
      | Inr w' \<Rightarrow> move_videos dest_dir vs run (True, w'))"

fun move_extless :: "pystr \<Rightarrow> path \<Rightarrow> path list \<Rightarrow> bool \<Rightarrow> bool \<times> world \<Rightarrow> py_error + (bool \<times> world)" where
  "move_extless rel dest_dir [] run (moved_any, w) = Inr (moved_any, w)"
| "move_extless rel dest_dir (f # fs') run (moved_any, w) =
     (let new_name = rel @ str ''.mkv''
      in case move_path f (joinpath dest_dir new_name) run w of
           Inl e \<Rightarrow> Inl e
         | Inr w' \<Rightarrow> move_extless rel dest_dir fs' run (True, w'))"

text \<open>The block under \<open>if moved_any:\<close>.\<close>

definition retire :: "env \<Rightarrow> ItemResult \<Rightarrow> path \<Rightarrow> bool \<Rightarrow> bool \<times> world \<Rightarrow> py_error + (ItemResult \<times> world)" where
  "retire e details folder run mw =
     (case mw of (moved_any, w) \<Rightarrow>
        if moved_any then
          (let recycle_dest = unique_recycle_dest e (fs w) folder
           in case ensure_dir (parent_of recycle_dest) run w of
                Inl er \<Rightarrow> Inl er
              | Inr w1 \<Rightarrow>
                  (case (if run then
                           (case shutil_move (fs w1) folder recycle_dest of
                              Inl er \<Rightarrow> Inl er
                            | Inr fs' \<Rightarrow>
                                Inr (w1\<lparr>fs := fs',
                                         performed := performed w1 @ [Move folder recycle_dest]\<rparr>))
                         else Inr w1) of
                     Inl er \<Rightarrow> Inl er
                   | Inr w2 \<Rightarrow>
                       Inr (details\<lparr>recycled_to := Some (path_str recycle_dest)\<rparr>,
                            log_line (str ''recycle '' @ path_str folder @ str '' -> ''
                                        @ path_str recycle_dest) w2)))
        else Inr (details, w))"

text \<open>
  Lines 218 to 258 of \<open>process_series_folder\<close> and lines 271 to 308 of
  \<open>process_movie_folder\<close> are the same statements, from \<open>ensure_dir(dest_dir, run)\<close> to
  \<open>return details\<close>; they are modelled once.
\<close>

definition process_body :: "env \<Rightarrow> kind \<Rightarrow> pystr \<Rightarrow> path \<Rightarrow> path \<Rightarrow> bool \<Rightarrow> world \<Rightarrow> py_error + (ItemResult \<times> world)" where
  "process_body e k rel dest_dir folder run w =
     (case ensure_dir dest_dir run w of
        Inl er \<Rightarrow> Inl er
      | Inr w1 \<Rightarrow>
          (let rar = find_first_rar (fs w1) folder;
               vids = find_video_files (fs w1) folder;
               extless = find_large_extensionless (fs w1) folder (100 * 1024 * 1024);
               details = \<lparr>kind = k, release = rel, status = Ok, reason = None,
                          dest = Some (path_str dest_dir), path = path_str folder,
                          recycled_to = None\<rparr>
           in case select_strategy rar vids extless of
                Archive r \<Rightarrow>
                  (case extract_rar (tool e) r dest_dir run w1 of
                     Inl er \<Rightarrow> Inl er
                   | Inr ((ok, out), w2) \<Rightarrow>
                       if \<not> ok then
                         Inr (details\<lparr>status := Error, reason := Some (str ''unrar_failed'')\<rparr>,
                              audit (Unrar_failed rel (path_str r)
                                       (drop (length out - 2000) out))
                                (log_line (str ''ERROR unrar failed for '' @ path_str r
                                             @ str '' (leaving source)'') w2))
                       else retire e details folder run (True, w2))
              | VideoFiles vs \<Rightarrow>
                  (case move_videos dest_dir vs run (False, w1) of
                     Inl er \<Rightarrow> Inl er
                   | Inr mw \<Rightarrow> retire e details folder run mw)
              | LargeUnlabeledFiles fl \<Rightarrow>
                  (case move_extless rel dest_dir fl run (False, w1) of
                     Inl er \<Rightarrow> Inl er
                   | Inr mw \<Rightarrow> retire e details folder run mw)
              | NoMedia \<Rightarrow>
                  Inr (details\<lparr>status := Error, reason := Some (str ''no_media_found'')\<rparr>,
                       log_line (str ''IRREGULAR: no rar/video files found in ''
                                   @ path_str folder) w1)))"

text \<open>
  The destination directories: lines 214 to 216 of \<open>process_series_folder\<close> and lines 269
  and 270 of \<open>process_movie_folder\<close>.
\<close>

definition tv_dest_dir :: "ParsedTV \<Rightarrow> path" where
  "tv_dest_dir parsed =
     (let show_folder =
            (case tv_year parsed of
               None \<Rightarrow> tv_show parsed
             | Some y \<Rightarrow> tv_show parsed @ str '' ('' @ str_of_int y @ str '')'');
          season_folder = str ''Season '' @ fmt_02d (season parsed);
          dest_dir = joinpath (joinpath DST_TV show_folder) season_folder
      in dest_dir)"

definition movie_dest_dir :: "ParsedMovie \<Rightarrow> path" where
  "movie_dest_dir parsed =
     (let movie_folder = title parsed @ str '' ('' @ str_of_int (movie_year parsed) @ str '')'';
          dest_dir = joinpath DST_MOVIES movie_folder
      in dest_dir)"

definition process_series_folder :: "env \<Rightarrow> path \<Rightarrow> bool \<Rightarrow> world \<Rightarrow> py_error + (ItemResult \<times> world)" where
  "process_series_folder e folder run w =
     (let rel = name_of folder
      in case parse_tv rel of
           Inl er \<Rightarrow> Inl er
         | Inr None \<Rightarrow>
             Inr (\<lparr>kind = TV, release = rel, status = Error,
                   reason = Some (str ''unparseable''), dest = None,
                   path = path_str folder, recycled_to = None\<rparr>,
                  log_line (str ''IRREGULAR TV name (can't parse): '' @ rel) w)
         | Inr (Some parsed) \<Rightarrow> process_body e TV rel (tv_dest_dir parsed) folder run w)"

definition process_movie_folder :: "env \<Rightarrow> path \<Rightarrow> bool \<Rightarrow> world \<Rightarrow> py_error + (ItemResult \<times> world)" where
  "process_movie_folder e folder run w =
     (let rel = name_of folder
      in case parse_movie rel of
           Inl er \<Rightarrow> Inl er
         | Inr None \<Rightarrow>
             Inr (\<lparr>kind = Movie, release = rel, status = Error,
                   reason = Some (str ''unparseable''), dest = None,
                   path = path_str folder, recycled_to = None\<rparr>,
                  log_line (str ''IRREGULAR Movie name (can't parse year): '' @ rel) w)
         | Inr (Some parsed) \<Rightarrow> process_body e Movie rel (movie_dest_dir parsed) folder run w)"


section \<open>Notions used in the statements\<close>

text \<open>What a folder holds, as the three scans see it.\<close>

definition has_archive :: "filesystem \<Rightarrow> path \<Rightarrow> bool" where
  "has_archive fsys folder =
     (\<exists>p \<in> set (rglob fsys folder). is_file fsys p \<and> suffix (str ''.rar'') (name_of p))"

definition has_video :: "filesystem \<Rightarrow> path \<Rightarrow> bool" where
  "has_video fsys folder =
     (\<exists>p \<in> set (rglob fsys folder).
        is_file fsys p \<and> str_lower (suffix_of (name_of p)) \<in> set VIDEO_EXTS)"

definition has_large :: "filesystem \<Rightarrow> path \<Rightarrow> bool" where
  "has_large fsys folder =
     (\<exists>p \<in> set (rglob fsys folder). \<exists>sz. lookup fsys p = Some (File sz)
        \<and> suffix_of (name_of p) = [] \<and> 100 * 1024 * 1024 \<le> sz)"

text \<open>A small file tree for the concrete instances.\<close>

definition demo_folder :: path where
  "demo_folder = [str ''Series'', str ''Show.S01E02'']"

definition demo_both :: filesystem where
  "demo_both = [([str ''Series''], Dir), (demo_folder, Dir),
                (demo_folder @ [str ''ep.mkv''], File 700),
                (demo_folder @ [str ''ep.rar''], File 300)]"

text \<open>
  The shape of a name that the TV pattern accepts: a show segment, an optional year, the
  season marker with two digits, the episode marker with two digits, and a rest that
  starts at a word boundary.
\<close>

fun is_year :: "pystr \<Rightarrow> bool" where
  "is_year [a, b, c, d] =
     (((a = 49 \<and> b = 57) \<or> (a = 50 \<and> b = 48)) \<and> is_decimal c \<and> is_decimal d)"
| "is_year _ = False"

fun two_digits :: "pystr \<Rightarrow> bool" where
  "two_digits [a, b] = (is_decimal a \<and> is_decimal b)"
| "two_digits _ = False"

definition year_part :: "pystr option \<Rightarrow> pystr" where
  "year_part yr = (case yr of None \<Rightarrow> [] | Some y \<Rightarrow> dot # y)"

definition tv_split ::
  "pystr \<Rightarrow> pystr \<Rightarrow> pystr option \<Rightarrow> pychar \<Rightarrow> pystr \<Rightarrow> pychar \<Rightarrow> pystr \<Rightarrow> pystr \<Rightarrow> bool" where
  "tv_split r sh yr sc se ec ep rest =
     (r = sh @ year_part yr @ [dot, sc] @ se @ [ec] @ ep @ rest
      \<and> sh \<noteq> [] \<and> newline \<notin> set sh
      \<and> (case yr of None \<Rightarrow> True | Some y \<Rightarrow> is_year y)
      \<and> is_S sc \<and> two_digits se \<and> is_E ec \<and> two_digits ep
      \<and> at_boundary (Some (last ep)) rest)"

definition digits_val :: "pystr \<Rightarrow> int" where
  "digits_val s = foldl (\<lambda>acc c. acc * 10 + decimal_value c) 0 s"

fun single_spaced :: "pystr \<Rightarrow> bool" where
  "single_spaced (a # b # r) = (\<not> (is_space a \<and> is_space b) \<and> single_spaced (b # r))"
| "single_spaced _ = True"

definition normalized :: "pystr \<Rightarrow> bool" where
  "normalized s =
     (dot \<notin> set s \<and> (\<forall>c \<in> set s. is_space c \<longrightarrow> c = space) \<and> single_spaced s
      \<and> (s \<noteq> [] \<longrightarrow> \<not> is_space (hd s) \<and> \<not> is_space (last s)))"

definition ascii_digit :: "pychar \<Rightarrow> bool" where
  "ascii_digit c = (48 \<le> c \<and> c \<le> 57)"

definition arabic_name :: pystr where
  "arabic_name = str ''Show.S'' @ [1632, 1633] @ str ''E'' @ [1632, 1634]"

definition scenario_name :: pystr where
  "scenario_name = str ''Show.Name.2020.S01E02.1080p.WEB.x264-GRP''"

text \<open>The shape of a name that the movie pattern accepts.\<close>

definition movie_split :: "pystr \<Rightarrow> pystr \<Rightarrow> pystr \<Rightarrow> pystr \<Rightarrow> bool" where
  "movie_split r ti y rest =
     (r = ti @ dot # y @ rest \<and> ti \<noteq> [] \<and> newline \<notin> set ti \<and> is_year y
      \<and> at_boundary (Some (last y)) rest)"



definition failing_tool :: "pystr list \<Rightarrow> filesystem \<Rightarrow> py_error + (int \<times> pystr \<times> filesystem)" where
  "failing_tool cmd fsys = Inr (3, str ''cannot open archive'', fsys)"

definition demo_env :: env where
  "demo_env = \<lparr>today = str ''2026-11-04'', pid = 4242, tool = failing_tool\<rparr>"

text \<open>The moves among the performed calls, the log lines of the primitives, and what a dry run may change.\<close>

definition moves_of :: "action list \<Rightarrow> (path \<times> path) list" where
  "moves_of acts = concat (map (\<lambda>a. case a of Move s d \<Rightarrow> [(s, d)] | _ \<Rightarrow> []) acts)"

definition mkdir_line :: "path \<Rightarrow> pystr" where
  "mkdir_line p = str ''mkdir -p '' @ path_str p"

definition move_line :: "path \<Rightarrow> path \<Rightarrow> pystr" where
  "move_line src dst = str ''move '' @ path_str src @ str '' -> '' @ path_str dst"

definition unrar_line :: "path \<Rightarrow> path \<Rightarrow> pystr" where
  "unrar_line rar dest_dir =
     str ''unrar '' @ join_sp [str ''e'', str ''-o+'', path_str rar, path_str dest_dir]"

definition quiet :: "world \<Rightarrow> world \<Rightarrow> bool" where
  "quiet w w' = (fs w' = fs w \<and> performed w' = performed w \<and> audit_log w' = audit_log w)"


definition archive_world :: world where
  "archive_world = \<lparr>fs = demo_both, log = [], audit_log = [], performed = []\<rparr>"


definition show_dest :: path where
  "show_dest = [str ''mnt'', str ''jace_media'', str ''Video'', str ''TV'', str ''Show'',
                str ''Season 01'']"



definition large_world :: world where
  "large_world = \<lparr>fs = [([str ''Series''], Dir), (demo_folder, Dir),
                        (demo_folder @ [str ''blob1''], File 200000000),
                        (demo_folder @ [str ''blob2''], File 300000000)],
                  log = [], audit_log = [], performed = []\<rparr>"

text \<open>A date folder in which the folder name and all its numbered variants are taken.\<close>

definition crowded_env :: env where
  "crowded_env = \<lparr>today = str ''2026-11-04'', pid = 7, tool = failing_tool\<rparr>"

definition crowded_fs :: filesystem where
  "crowded_fs =
     map (\<lambda>q. (q, Dir)) (tl (prefixes (joinpath RECYCLE (today crowded_env))))
     @ (joinpath (joinpath RECYCLE (today crowded_env)) (name_of demo_folder), Dir)
     # map (\<lambda>i. (recycle_cand crowded_env demo_folder i, Dir)) [1..<1000]"






section \<open>Verified properties\<close>

subsection \<open>Media discovery\<close>

lemma find_first_rar_None: "find_first_rar fsys folder = None \<longleftrightarrow> \<not> has_archive fsys folder"
  by (auto simp: find_first_rar_def has_archive_def find_None_iff)

lemma find_SomeD: "find P xs = Some x \<Longrightarrow> P x \<and> x \<in> set xs"
  by (induction xs) (auto split: if_splits)

lemma find_first_rar_Some:
  "find_first_rar fsys folder = Some r \<Longrightarrow>
     r \<in> set (rglob fsys folder) \<and> is_file fsys r \<and> suffix (str ''.rar'') (name_of r)"
  unfolding find_first_rar_def by (drule find_SomeD) simp

lemma find_video_files_Nil: "find_video_files fsys folder = [] \<longleftrightarrow> \<not> has_video fsys folder"
  by (auto simp: find_video_files_def has_video_def filter_empty_conv)

lemma find_large_Nil:
  "find_large_extensionless fsys folder (100 * 1024 * 1024) = [] \<longleftrightarrow> \<not> has_large fsys folder"
  by (auto simp: find_large_extensionless_def has_large_def filter_empty_conv
      split: option.splits node.splits)

text \<open>
  C3: the selection of the content strategy is a total function of the folder with the
  fixed priority Archive, VideoFiles, LargeUnlabeledFiles, NoMedia. A folder that holds an
  archive file selects Archive, whatever else it holds; the later strategies are selected
  only when every earlier scan came back empty.
\<close>

theorem content_strategy_priority:
  "(has_archive fsys folder \<longrightarrow>
      (\<exists>r. content_strategy fsys folder = Archive r \<and> r \<in> set (rglob fsys folder)
           \<and> is_file fsys r \<and> suffix (str ''.rar'') (name_of r)))
   \<and> (\<not> has_archive fsys folder \<and> has_video fsys folder \<longrightarrow>
        content_strategy fsys folder = VideoFiles (find_video_files fsys folder))
   \<and> (\<not> has_archive fsys folder \<and> \<not> has_video fsys folder \<and> has_large fsys folder \<longrightarrow>
        content_strategy fsys folder
          = LargeUnlabeledFiles (find_large_extensionless fsys folder (100 * 1024 * 1024)))
   \<and> (\<not> has_archive fsys folder \<and> \<not> has_video fsys folder \<and> \<not> has_large fsys folder \<longrightarrow>
        content_strategy fsys folder = NoMedia)"
proof -
  have a: "has_archive fsys folder \<Longrightarrow>
      \<exists>r. content_strategy fsys folder = Archive r \<and> r \<in> set (rglob fsys folder)
           \<and> is_file fsys r \<and> suffix (str ''.rar'') (name_of r)"
  proof -
    assume "has_archive fsys folder"
    then obtain r where r: "find_first_rar fsys folder = Some r"
      using find_first_rar_None [of fsys folder] by (cases "find_first_rar fsys folder") auto
    from find_first_rar_Some [OF r] r show ?thesis
      by (simp add: content_strategy_def select_strategy_def)
  qed
  have b: "\<not> has_archive fsys folder \<Longrightarrow> find_first_rar fsys folder = None"
    by (simp add: find_first_rar_None)
  show ?thesis
    using a b find_video_files_Nil [of fsys folder] find_large_Nil [of fsys folder]
    by (auto simp: content_strategy_def select_strategy_def)
qed

lemmas fs_eval = lookup_def is_file_def is_dir_def path_exists_def rglob_def name_of_def
  parent_of_def joinpath_def suffix_of_def str_def dot_def strict_prefix_def

theorem content_strategy_priority_witness:
  "has_archive demo_both demo_folder \<and> has_video demo_both demo_folder
   \<and> content_strategy demo_both demo_folder = Archive (demo_folder @ [str ''ep.rar''])"
proof -
  have h: "has_archive demo_both demo_folder"
    by (simp add: has_archive_def demo_both_def demo_folder_def fs_eval suffix_def)
  have v: "has_video demo_both demo_folder"
    by (simp add: has_video_def demo_both_def demo_folder_def fs_eval VIDEO_EXTS_def
        str_lower_def lower_char_def)
  from content_strategy_priority [of demo_both demo_folder] h
  obtain r where r: "content_strategy demo_both demo_folder = Archive r"
    "r \<in> set (rglob demo_both demo_folder)" "is_file demo_both r"
    "suffix (str ''.rar'') (name_of r)" by blast
  from r(2,4) have "r = demo_folder @ [str ''ep.rar'']"
    by (auto simp: demo_both_def demo_folder_def fs_eval suffix_def split: if_splits)
  with h v r(1) show ?thesis by simp
qed

subsection \<open>The name parser\<close>

lemma year_re_Some:
  "year_re s = Some (y, rest) \<Longrightarrow> s = y @ rest \<and> is_year y"
  by (erule year_re.elims) (auto split: if_splits)

lemma year_re_complete: "is_year y \<Longrightarrow> year_re (y @ rest) = Some (y, rest)"
  by (cases y rule: is_year.cases) auto

lemma two_digits_iff: "two_digits s \<longleftrightarrow> (\<exists>a b. s = [a, b] \<and> is_decimal a \<and> is_decimal b)"
  by (cases s rule: two_digits.cases) auto

lemma tv_tail_Some:
  "tv_tail s = Some (se, ep) \<Longrightarrow>
     \<exists>sc ec rest. s = [dot, sc] @ se @ [ec] @ ep @ rest \<and> is_S sc \<and> two_digits se \<and> is_E ec
        \<and> two_digits ep \<and> at_boundary (Some (last ep)) rest"
  by (erule tv_tail.elims) (auto split: if_splits)

lemma tv_tail_complete:
  "is_S sc \<Longrightarrow> two_digits se \<Longrightarrow> is_E ec \<Longrightarrow> two_digits ep \<Longrightarrow> at_boundary (Some (last ep)) rest
     \<Longrightarrow> tv_tail ([dot, sc] @ se @ [ec] @ ep @ rest) = Some (se, ep)"
  by (auto simp: two_digits_iff)

lemma tv_after_show_Some:
  assumes "tv_after_show v = Some (yr, se, ep)"
  shows "\<exists>sc ec rest. v = year_part yr @ [dot, sc] @ se @ [ec] @ ep @ rest
           \<and> (case yr of None \<Rightarrow> True | Some y \<Rightarrow> is_year y)
           \<and> is_S sc \<and> two_digits se \<and> is_E ec \<and> two_digits ep
           \<and> at_boundary (Some (last ep)) rest"
proof (cases "case dot_year v of None \<Rightarrow> None
            | Some (y, rest) \<Rightarrow> map_option (\<lambda>(se, ep). (Some y, se, ep)) (tv_tail rest)")
  case None
  with assms have "tv_tail v = Some (se, ep)" and "yr = None"
    by (auto simp: tv_after_show_def)
  with tv_tail_Some [of v se ep] show ?thesis by (simp add: year_part_def)
next
  case (Some r)
  with assms have r: "r = (yr, se, ep)" by (simp add: tv_after_show_def)
  from Some r obtain y rest where dy: "dot_year v = Some (y, rest)" and yr: "yr = Some y"
    and tl: "tv_tail rest = Some (se, ep)"
    by (auto split: option.splits)
  from dy obtain cs where v: "v = dot # cs" and "year_re cs = Some (y, rest)"
    by (auto simp: dot_year_def split: list.splits if_splits)
  then have cs: "cs = y @ rest" and iy: "is_year y" using year_re_Some by blast+
  from tv_tail_Some [OF tl] v cs iy yr show ?thesis by (auto simp: year_part_def)
qed

lemma is_S_not_century: "is_S sc \<Longrightarrow> sc \<noteq> 49 \<and> sc \<noteq> 50"
  by (auto simp: is_S_def)

lemma tv_after_show_complete:
  assumes "case yr of None \<Rightarrow> True | Some y \<Rightarrow> is_year y"
    and "is_S sc" "two_digits se" "is_E ec" "two_digits ep" "at_boundary (Some (last ep)) rest"
  shows "tv_after_show (year_part yr @ [dot, sc] @ se @ [ec] @ ep @ rest) = Some (yr, se, ep)"
proof (cases yr)
  case None
  from assms(3) obtain a b where se: "se = [a, b]" by (auto simp: two_digits_iff)
  have "dot_year ([dot, sc] @ se @ [ec] @ ep @ rest) = None"
    using is_S_not_century [OF assms(2)] se by (simp add: dot_year_def)
  with None tv_tail_complete [OF assms(2-6)] show ?thesis
    by (simp add: tv_after_show_def year_part_def)
next
  case (Some y)
  with assms(1) have iy: "is_year y" by simp
  have "dot_year (dot # y @ [dot, sc] @ se @ [ec] @ ep @ rest)
          = Some (y, [dot, sc] @ se @ [ec] @ ep @ rest)"
    using year_re_complete [OF iy] by (simp add: dot_year_def)
  with Some tv_tail_complete [OF assms(2-6)] show ?thesis
    by (simp add: tv_after_show_def year_part_def)
qed

lemma tv_scan_Some:
  "tv_scan acc xs = Some g \<Longrightarrow>
     \<exists>u v. xs = u @ v \<and> u \<noteq> [] \<and> newline \<notin> set u \<and> g_show g = acc @ u
        \<and> tv_after_show v = Some (g_year g, g_season g, g_ep g)
        \<and> (\<forall>u' v'. xs = u' @ v' \<and> u' \<noteq> [] \<and> length u' < length u \<longrightarrow> tv_after_show v' = None)"
proof (induction xs arbitrary: acc)
  case Nil
  then show ?case by simp
next
  case (Cons c cs)
  from Cons.prems have nl: "c \<noteq> newline" by (auto split: if_splits)
  show ?case
  proof (cases "tv_after_show cs")
    case None
    with Cons.prems nl have "tv_scan (acc @ [c]) cs = Some g" by simp
    from Cons.IH [OF this] obtain u v where uv: "cs = u @ v" "u \<noteq> []" "newline \<notin> set u"
      "g_show g = (acc @ [c]) @ u" "tv_after_show v = Some (g_year g, g_season g, g_ep g)"
      "\<forall>u' v'. cs = u' @ v' \<and> u' \<noteq> [] \<and> length u' < length u \<longrightarrow> tv_after_show v' = None"
      by blast
    have min: "\<forall>u' v'. c # cs = u' @ v' \<and> u' \<noteq> [] \<and> length u' < length (c # u)
                 \<longrightarrow> tv_after_show v' = None"
    proof (intro allI impI)
      fix u' v' assume h: "c # cs = u' @ v' \<and> u' \<noteq> [] \<and> length u' < length (c # u)"
      then obtain t where t: "u' = c # t" "cs = t @ v'" by (cases u') auto
      show "tv_after_show v' = None"
      proof (cases "t = []")
        case True
        with t None show ?thesis by simp
      next
        case False
        with t h uv(6) show ?thesis by auto
      qed
    qed
    show ?thesis
      by (rule exI [of _ "c # u"], rule exI [of _ v]) (use uv nl min in auto)
  next
    case (Some r)
    obtain y se ep where r: "r = (y, se, ep)" by (cases r)
    with Some Cons.prems nl
    have g: "g = \<lparr>g_show = acc @ [c], g_year = y, g_season = se, g_ep = ep\<rparr>" by simp
    show ?thesis
      by (rule exI [of _ "[c]"], rule exI [of _ cs]) (use g Some r nl in auto)
  qed
qed

lemma tv_scan_complete:
  "u \<noteq> [] \<Longrightarrow> newline \<notin> set u \<Longrightarrow> tv_after_show v \<noteq> None \<Longrightarrow> tv_scan acc (u @ v) \<noteq> None"
proof (induction u arbitrary: acc)
  case Nil
  then show ?case by simp
next
  case (Cons c t)
  show ?case
  proof (cases "t = []")
    case True
    with Cons.prems show ?thesis by auto
  next
    case False
    with Cons.prems Cons.IH [of "acc @ [c]"] show ?thesis
      by (auto split: option.splits)
  qed
qed


lemma decimal_value_range: "0 \<le> decimal_value c \<and> decimal_value c \<le> 9"
  by (auto simp: decimal_value_def split: option.splits)

lemma digits_val_two: "digits_val [a, b] = 10 * decimal_value a + decimal_value b"
  by (simp add: digits_val_def)

lemma digits_val_two_range: "0 \<le> digits_val [a, b] \<and> digits_val [a, b] \<le> 99"
  using decimal_value_range [of a] decimal_value_range [of b] by (simp add: digits_val_two)

lemma py_int_two: "two_digits s \<Longrightarrow> py_int s = Inr (digits_val s)"
  by (auto simp: two_digits_iff py_int_def digits_val_def)

lemma decimal_value_consts:
  "decimal_value 48 = 0" "decimal_value 49 = 1" "decimal_value 50 = 2" "decimal_value 57 = 9"
  by (simp_all add: decimal_value_def decimal_ranges_def)

lemma is_decimal_consts: "is_decimal 48" "is_decimal 49" "is_decimal 50" "is_decimal 57"
  by (simp_all add: is_decimal_def in_ranges_def decimal_ranges_def)

lemma py_int_year:
  assumes "is_year y"
  shows "py_int y = Inr (digits_val y) \<and> 1900 \<le> digits_val y \<and> digits_val y \<le> 2099"
proof -
  from assms obtain a b c d where y: "y = [a, b, c, d]"
    and ab: "(a = 49 \<and> b = 57) \<or> (a = 50 \<and> b = 48)" and cd: "is_decimal c" "is_decimal d"
    by (cases y rule: is_year.cases) auto
  have v: "digits_val y = 1000 * decimal_value a + 100 * decimal_value b
             + 10 * decimal_value c + decimal_value d"
    by (simp add: y digits_val_def)
  have "py_int y = Inr (digits_val y)"
    using ab cd is_decimal_consts by (auto simp: y py_int_def digits_val_def)
  moreover have "1900 \<le> digits_val y \<and> digits_val y \<le> 2099"
    using ab decimal_value_range [of c] decimal_value_range [of d]
    by (auto simp: v decimal_value_consts)
  ultimately show ?thesis by simp
qed

lemma TV_RE_Some:
  assumes "TV_RE r = Some g"
  shows "\<exists>sc ec rest. tv_split r (g_show g) (g_year g) sc (g_season g) ec (g_ep g) rest"
    and "tv_split r sh' yr' sc' se' ec' ep' rest' \<Longrightarrow> length (g_show g) \<le> length sh'"
proof -
  from assms have "tv_scan [] r = Some g" by (simp add: TV_RE_def)
  from tv_scan_Some [OF this] obtain u v where uv: "r = u @ v" "u \<noteq> []" "newline \<notin> set u"
    "g_show g = u" "tv_after_show v = Some (g_year g, g_season g, g_ep g)"
    and min: "\<And>u' v'. r = u' @ v' \<Longrightarrow> u' \<noteq> [] \<Longrightarrow> length u' < length u \<Longrightarrow> tv_after_show v' = None"
    by auto
  from tv_after_show_Some [OF uv(5)] uv(1-4)
  show "\<exists>sc ec rest. tv_split r (g_show g) (g_year g) sc (g_season g) ec (g_ep g) rest"
    by (auto simp: tv_split_def)
  show "length (g_show g) \<le> length sh'" if sp: "tv_split r sh' yr' sc' se' ec' ep' rest'"
  proof (rule ccontr)
    assume "\<not> length (g_show g) \<le> length sh'"
    then have lt: "length sh' < length u" using uv(4) by simp
    from sp have r: "r = sh' @ (year_part yr' @ [dot, sc'] @ se' @ [ec'] @ ep' @ rest')"
      and ne: "sh' \<noteq> []" by (simp_all add: tv_split_def)
    from sp have "tv_after_show (year_part yr' @ [dot, sc'] @ se' @ [ec'] @ ep' @ rest')
                    = Some (yr', se', ep')"
      by (intro tv_after_show_complete) (simp_all add: tv_split_def)
    with min [OF r ne lt] show False by simp
  qed
qed

lemma TV_RE_complete:
  assumes "tv_split r sh yr sc se ec ep rest"
  shows "TV_RE r \<noteq> None"
proof -
  from assms have "tv_after_show (year_part yr @ [dot, sc] @ se @ [ec] @ ep @ rest)
                    = Some (yr, se, ep)"
    by (intro tv_after_show_complete) (simp_all add: tv_split_def)
  then have "tv_scan [] (sh @ (year_part yr @ [dot, sc] @ se @ [ec] @ ep @ rest)) \<noteq> None"
    using assms by (intro tv_scan_complete) (simp_all add: tv_split_def)
  with assms show ?thesis by (simp add: TV_RE_def tv_split_def)
qed

lemma parse_tv_of_groups:
  assumes "TV_RE r = Some g"
  shows "parse_tv r = Inr (Some \<lparr>tv_show = slug_to_name (g_show g),
           tv_year = map_option digits_val (g_year g),
           season = digits_val (g_season g), episode = digits_val (g_ep g)\<rparr>)"
proof -
  from TV_RE_Some(1) [OF assms] obtain sc ec rest
    where sp: "tv_split r (g_show g) (g_year g) sc (g_season g) ec (g_ep g) rest" by blast
  then have se: "py_int (g_season g) = Inr (digits_val (g_season g))"
    and ep: "py_int (g_ep g) = Inr (digits_val (g_ep g))"
    by (simp_all add: tv_split_def py_int_two)
  have yr: "\<And>y. g_year g = Some y \<Longrightarrow> py_int y = Inr (digits_val y)"
    using sp py_int_year by (auto simp: tv_split_def)
  show ?thesis
    using assms se ep yr by (cases "g_year g") (simp_all add: parse_tv_def)
qed

lemma parse_tv_total: "\<exists>x. parse_tv r = Inr x"
proof (cases "TV_RE r")
  case None
  then show ?thesis by (simp add: parse_tv_def)
next
  case (Some g)
  from parse_tv_of_groups [OF this] show ?thesis by blast
qed


subsection \<open>Character classes on ASCII\<close>

lemma in_ranges_Cons: "in_ranges (a # rs) c = (fst a \<le> c \<and> c \<le> snd a \<or> in_ranges rs c)"
  by (simp add: in_ranges_def)

lemma in_ranges_below: "\<forall>r \<in> set rs. c < fst r \<Longrightarrow> \<not> in_ranges rs c"
  by (auto simp: in_ranges_def list_ex_iff)

lemma is_decimal_low:
  assumes "c < 1632"
  shows "is_decimal c = (48 \<le> c \<and> c \<le> 57)"
proof -
  have a: "\<not> in_ranges (tl decimal_ranges) c"
    by (rule in_ranges_below) (use assms in \<open>simp add: decimal_ranges_def\<close>)
  have "in_ranges decimal_ranges c = in_ranges ((48, 57) # tl decimal_ranges) c"
    by (simp add: decimal_ranges_def)
  with a show ?thesis by (simp add: is_decimal_def in_ranges_Cons)
qed

lemma is_space_low:
  assumes "c < 133"
  shows "is_space c = (9 \<le> c \<and> c \<le> 13 \<or> 28 \<le> c \<and> c \<le> 32)"
  using assms by (auto simp: is_space_def space_ranges_def in_ranges_def)

lemma is_space_space: "is_space space"
  by (simp add: is_space_low space_def)

lemma is_word_low:
  assumes "c < 170"
  shows "is_word c = (48 \<le> c \<and> c \<le> 57 \<or> 65 \<le> c \<and> c \<le> 90 \<or> 97 \<le> c \<and> c \<le> 122 \<or> c = 95)"
  using assms by (auto simp: is_word_def is_alnum_def is_decimal_low)

lemma is_decimal_is_word: "is_decimal c \<Longrightarrow> is_word c"
  by (simp add: is_word_def is_alnum_def)

subsection \<open>Normalisation of the show segment\<close>

lemma single_spaced_Cons:
  "single_spaced (a # l) = ((l \<noteq> [] \<longrightarrow> \<not> (is_space a \<and> is_space (hd l))) \<and> single_spaced l)"
  by (cases l) auto

lemma single_spaced_append: "single_spaced (u @ v) \<Longrightarrow> single_spaced u \<and> single_spaced v"
proof (induction u)
  case Nil
  then show ?case by simp
next
  case (Cons a u)
  then show ?case by (cases u; cases v) (auto simp: single_spaced_Cons)
qed

lemma collapse_ws_hd:
  "collapse_ws t \<noteq> [] \<Longrightarrow> is_space (hd (collapse_ws t)) \<Longrightarrow> t \<noteq> [] \<and> is_space (hd t)"
  by (cases t) (auto split: if_splits)

lemma collapse_ws_Nil: "collapse_ws t = [] \<longleftrightarrow> t = []"
  by (cases t) auto

lemma hd_dropWhile_space: "dropWhile is_space cs \<noteq> [] \<Longrightarrow> \<not> is_space (hd (dropWhile is_space cs))"
  by (rule hd_dropWhile)

lemma collapse_ws_single: "single_spaced (collapse_ws s)"
proof (induction s rule: collapse_ws.induct)
  case 1
  then show ?case by simp
next
  case (2 c cs)
  show ?case
  proof (cases "is_space c")
    case True
    have "collapse_ws (dropWhile is_space cs) \<noteq> [] \<Longrightarrow>
            \<not> is_space (hd (collapse_ws (dropWhile is_space cs)))"
      using collapse_ws_hd [of "dropWhile is_space cs"] hd_dropWhile_space [of cs] by blast
    with True 2(1) show ?thesis by (simp add: single_spaced_Cons)
  next
    case False
    with 2(2) show ?thesis by (simp add: single_spaced_Cons)
  qed
qed

lemma collapse_ws_spaces: "c \<in> set (collapse_ws s) \<Longrightarrow> is_space c \<Longrightarrow> c = space"
proof (induction s rule: collapse_ws.induct)
  case 1
  then show ?case by simp
next
  case (2 a cs)
  then show ?case by (cases "is_space a") auto
qed

lemma collapse_ws_set: "set (collapse_ws s) \<subseteq> insert space (set s)"
proof (induction s rule: collapse_ws.induct)
  case 1
  then show ?case by simp
next
  case (2 a cs)
  show ?case
  proof (cases "is_space a")
    case True
    with 2(1) have "set (collapse_ws (dropWhile is_space cs)) \<subseteq> insert space (set cs)"
      using set_dropWhileD [of _ is_space cs] by blast
    with True show ?thesis by auto
  next
    case False
    with 2(2) show ?thesis by auto
  qed
qed

lemma filter_dropWhile_space:
  "filter (\<lambda>c. \<not> is_space c) (dropWhile is_space cs) = filter (\<lambda>c. \<not> is_space c) cs"
  by (induction cs) auto

lemma collapse_ws_content:
  "filter (\<lambda>c. \<not> is_space c) (collapse_ws s) = filter (\<lambda>c. \<not> is_space c) s"
proof (induction s rule: collapse_ws.induct)
  case 1
  then show ?case by simp
next
  case (2 a cs)
  then show ?case
    by (cases "is_space a") (simp_all add: is_space_space filter_dropWhile_space)
qed

lemma strip_prefix_suffix: "\<exists>u v. s = u @ strip s @ v"
proof -
  have a: "s = takeWhile is_space s @ dropWhile is_space s" by simp
  let ?t = "dropWhile is_space s"
  have "rev ?t = takeWhile is_space (rev ?t) @ dropWhile is_space (rev ?t)" by simp
  then have "?t = rev (dropWhile is_space (rev ?t)) @ rev (takeWhile is_space (rev ?t))"
    by (metis rev_append rev_rev_ident)
  then have "s = takeWhile is_space s @ strip s @ rev (takeWhile is_space (rev ?t))"
    using a by (simp add: strip_def)
  then show ?thesis by blast
qed

lemma strip_set: "set (strip s) \<subseteq> set s"
proof -
  obtain u v where "s = u @ strip s @ v" using strip_prefix_suffix by blast
  then have "set s = set u \<union> set (strip s) \<union> set v" by (metis set_append sup_assoc)
  then show ?thesis by blast
qed

lemma strip_single: "single_spaced s \<Longrightarrow> single_spaced (strip s)"
proof -
  assume s: "single_spaced s"
  obtain u v where uv: "s = u @ strip s @ v" using strip_prefix_suffix by blast
  with s have "single_spaced (u @ strip s @ v)" by simp
  then show ?thesis using single_spaced_append by blast
qed

lemma strip_ends:
  assumes "strip s \<noteq> []"
  shows "\<not> is_space (hd (strip s)) \<and> \<not> is_space (last (strip s))"
proof -
  let ?t = "dropWhile is_space s"
  let ?d = "dropWhile is_space (rev ?t)"
  from assms have d: "?d \<noteq> []" by (simp add: strip_def)
  then have l: "\<not> is_space (hd ?d)" by (rule hd_dropWhile)
  have last: "last (strip s) = hd ?d" using d by (simp add: strip_def last_rev)
  have t: "?t \<noteq> []"
  proof
    assume "?t = []"
    then have "?d = []" by (simp only: rev.simps dropWhile.simps)
    with d show False by (simp only:)
  qed
  then have ht: "\<not> is_space (hd ?t)" by (rule hd_dropWhile)
  have "rev ?t = takeWhile is_space (rev ?t) @ ?d" by simp
  then have "?t = rev ?d @ rev (takeWhile is_space (rev ?t))"
    by (metis rev_append rev_rev_ident)
  then have "hd ?t = hd (rev ?d)" using d by (metis hd_append2 rev_is_Nil_conv)
  with ht have "\<not> is_space (hd (strip s))" by (simp add: strip_def)
  with l last show ?thesis by simp
qed

lemma filter_rev_dropWhile_space:
  "filter (\<lambda>c. \<not> is_space c) (rev (dropWhile is_space (rev t))) = filter (\<lambda>c. \<not> is_space c) t"
proof -
  have "filter (\<lambda>c. \<not> is_space c) (rev (dropWhile is_space (rev t)))
          = rev (filter (\<lambda>c. \<not> is_space c) (dropWhile is_space (rev t)))"
    by (simp add: rev_filter)
  also have "\<dots> = rev (filter (\<lambda>c. \<not> is_space c) (rev t))"
    by (simp add: filter_dropWhile_space)
  also have "\<dots> = filter (\<lambda>c. \<not> is_space c) t" by (simp add: rev_filter)
  finally show ?thesis .
qed

lemma strip_content: "filter (\<lambda>c. \<not> is_space c) (strip s) = filter (\<lambda>c. \<not> is_space c) s"
  by (simp add: strip_def filter_rev_dropWhile_space filter_dropWhile_space)

lemma dot_not_space: "dot \<noteq> space" "\<not> is_space dot"
  by (simp_all add: dot_def space_def is_space_low)

lemma replace_dots_no_dot: "dot \<notin> set (replace_dots s)"
  using dot_not_space by (auto simp: replace_dots_def)

lemma replace_dots_content:
  "filter (\<lambda>c. \<not> is_space c) (replace_dots s) = filter (\<lambda>c. \<not> is_space c \<and> c \<noteq> dot) s"
  by (induction s) (auto simp: replace_dots_def is_space_space)

lemma slug_to_name_normalized: "normalized (slug_to_name s)"
proof -
  let ?c = "collapse_ws (replace_dots s)"
  have sub: "set (slug_to_name s) \<subseteq> set ?c" by (simp add: slug_to_name_def strip_set)
  have "dot \<notin> set ?c"
    using collapse_ws_set [of "replace_dots s"] replace_dots_no_dot [of s] dot_not_space by auto
  with sub have 1: "dot \<notin> set (slug_to_name s)" by blast
  have 2: "\<forall>c \<in> set (slug_to_name s). is_space c \<longrightarrow> c = space"
    using sub collapse_ws_spaces by blast
  have 3: "single_spaced (slug_to_name s)"
    by (simp add: slug_to_name_def strip_single collapse_ws_single)
  have 4: "slug_to_name s \<noteq> [] \<longrightarrow>
             \<not> is_space (hd (slug_to_name s)) \<and> \<not> is_space (last (slug_to_name s))"
    using strip_ends [of ?c] by (simp add: slug_to_name_def)
  from 1 2 3 4 show ?thesis by (simp add: normalized_def)
qed

lemma slug_to_name_content:
  "filter (\<lambda>c. \<not> is_space c) (slug_to_name s) = filter (\<lambda>c. \<not> is_space c \<and> c \<noteq> dot) s"
  by (simp add: slug_to_name_def strip_content collapse_ws_content replace_dots_content)

lemmas parse_eval = str_def parse_tv_def TV_RE_def tv_after_show_def dot_year_def dot_def
  space_def newline_def is_S_def is_E_def at_boundary_def is_decimal_low is_word_low
  py_int_def decimal_value_def decimal_ranges_def slug_to_name_def strip_def replace_dots_def
  is_space_low

lemma is_decimal_ascii: "is_decimal c \<Longrightarrow> ascii_digit c \<or> 1632 \<le> c"
  by (cases "c < 1632") (simp_all add: is_decimal_low ascii_digit_def)

text \<open>
  C8, as the code has it: when \<open>parse_tv\<close> succeeds, the season and the episode were each
  matched from exactly two decimal digits of the name, after a period and the markers S
  and E, and are the base-ten values of those digits, between 0 and 99. A decimal digit is
  any character of Unicode category Nd: an ASCII digit, or a digit of another script
  from U+0660 on.
\<close>

theorem parse_tv_season_episode_digits:
  assumes "parse_tv r = Inr (Some p)"
  shows "\<exists>sh yr sc d1 d2 ec d3 d4 rest.
           tv_split r sh yr sc [d1, d2] ec [d3, d4] rest
           \<and> is_decimal d1 \<and> is_decimal d2 \<and> is_decimal d3 \<and> is_decimal d4
           \<and> season p = 10 * decimal_value d1 + decimal_value d2
           \<and> episode p = 10 * decimal_value d3 + decimal_value d4
           \<and> 0 \<le> season p \<and> season p \<le> 99 \<and> 0 \<le> episode p \<and> episode p \<le> 99
           \<and> list_all (\<lambda>c. ascii_digit c \<or> 1632 \<le> c) [d1, d2, d3, d4]"
proof -
  from assms obtain g where g: "TV_RE r = Some g"
    by (cases "TV_RE r") (auto simp: parse_tv_def)
  from parse_tv_of_groups [OF g] assms
  have p: "season p = digits_val (g_season g)" "episode p = digits_val (g_ep g)" by auto
  from TV_RE_Some(1) [OF g] obtain sc ec rest
    where sp: "tv_split r (g_show g) (g_year g) sc (g_season g) ec (g_ep g) rest" by blast
  then obtain d1 d2 d3 d4 where d: "g_season g = [d1, d2]" "g_ep g = [d3, d4]"
    "is_decimal d1" "is_decimal d2" "is_decimal d3" "is_decimal d4"
    by (auto simp: tv_split_def two_digits_iff)
  have "tv_split r (g_show g) (g_year g) sc [d1, d2] ec [d3, d4] rest" using sp d by simp
  moreover have "season p = 10 * decimal_value d1 + decimal_value d2"
    "episode p = 10 * decimal_value d3 + decimal_value d4"
    using p d by (simp_all add: digits_val_two)
  moreover have "0 \<le> season p \<and> season p \<le> 99 \<and> 0 \<le> episode p \<and> episode p \<le> 99"
    using p d digits_val_two_range [of d1 d2] digits_val_two_range [of d3 d4] by simp
  moreover have "list_all (\<lambda>c. ascii_digit c \<or> 1632 \<le> c) [d1, d2, d3, d4]"
    using d by (simp add: is_decimal_ascii)
  ultimately show ?thesis using d by blast
qed

lemma parse_plain_name:
  "parse_tv (str ''Show.S01E02'')
     = Inr (Some \<lparr>tv_show = str ''Show'', tv_year = None, season = 1, episode = 2\<rparr>)"
  by (simp add: parse_eval)

theorem parse_tv_season_episode_digits_witness:
  "parse_tv (str ''Show.S01E02'')
     = Inr (Some \<lparr>tv_show = str ''Show'', tv_year = None, season = 1, episode = 2\<rparr>)
   \<and> (\<exists>sh yr sc d1 d2 ec d3 d4 rest.
           tv_split (str ''Show.S01E02'') sh yr sc [d1, d2] ec [d3, d4] rest
           \<and> is_decimal d1 \<and> is_decimal d2 \<and> is_decimal d3 \<and> is_decimal d4
           \<and> (1::int) = 10 * decimal_value d1 + decimal_value d2
           \<and> (2::int) = 10 * decimal_value d3 + decimal_value d4)"
proof -
  note e = parse_plain_name
  from parse_tv_season_episode_digits [OF e] e show ?thesis by simp blast
qed

text \<open>
  The claim as stated fails: a name whose season and episode are written with
  Arabic-Indic digits parses to season 1, episode 2, and holds no ASCII digit at all.
\<close>

theorem parse_tv_non_ascii_digits_counterexample:
  "parse_tv arabic_name
     = Inr (Some \<lparr>tv_show = str ''Show'', tv_year = None, season = 1, episode = 2\<rparr>)
   \<and> filter ascii_digit arabic_name = []"
  by (simp add: arabic_name_def ascii_digit_def parse_eval is_decimal_def in_ranges_def
      is_word_def is_alnum_def)

text \<open>
  C7: every release name of the shape that the TV pattern accepts is parsed. The fields
  come from the split with the shortest show segment (the group is lazy): the show is that
  segment with every period replaced by a space, runs of white space collapsed to one
  space, and trimmed, so that it holds no period, no white space but single spaces between
  its words, and the other characters in their order; the year, when there is one, is
  the number written by its four digits, between 1900 and 2099; season and episode
  are the numbers written by their two digits. Nothing of the rest of the name enters
  the result.
\<close>

theorem parse_tv_recovers_fields:
  assumes "tv_split r sh yr sc se ec ep rest"
  shows "\<exists>sh0 yr0 sc0 se0 ec0 ep0 rest0 p.
           tv_split r sh0 yr0 sc0 se0 ec0 ep0 rest0
           \<and> (\<forall>sh' yr' sc' se' ec' ep' rest'.
                 tv_split r sh' yr' sc' se' ec' ep' rest' \<longrightarrow> length sh0 \<le> length sh')
           \<and> parse_tv r = Inr (Some p)
           \<and> tv_show p = strip (collapse_ws (replace_dots sh0))
           \<and> normalized (tv_show p)
           \<and> filter (\<lambda>c. \<not> is_space c) (tv_show p)
               = filter (\<lambda>c. \<not> is_space c \<and> c \<noteq> dot) sh0
           \<and> tv_year p = map_option digits_val yr0
           \<and> (case tv_year p of None \<Rightarrow> True | Some y \<Rightarrow> 1900 \<le> y \<and> y \<le> 2099)
           \<and> season p = digits_val se0 \<and> episode p = digits_val ep0"
proof -
  from TV_RE_complete [OF assms] obtain g where g: "TV_RE r = Some g" by blast
  let ?p = "\<lparr>tv_show = slug_to_name (g_show g), tv_year = map_option digits_val (g_year g),
             season = digits_val (g_season g), episode = digits_val (g_ep g)\<rparr>"
  from TV_RE_Some(1) [OF g] obtain sc0 ec0 rest0
    where sp: "tv_split r (g_show g) (g_year g) sc0 (g_season g) ec0 (g_ep g) rest0" by blast
  have min: "\<forall>sh' yr' sc' se' ec' ep' rest'.
               tv_split r sh' yr' sc' se' ec' ep' rest' \<longrightarrow> length (g_show g) \<le> length sh'"
    using TV_RE_Some(2) [OF g] by blast
  have p: "parse_tv r = Inr (Some ?p)" by (rule parse_tv_of_groups [OF g])
  have yr: "case tv_year ?p of None \<Rightarrow> True | Some y \<Rightarrow> 1900 \<le> y \<and> y \<le> 2099"
  proof (cases "g_year g")
    case None
    then show ?thesis by simp
  next
    case (Some y)
    with sp have "is_year y" by (simp add: tv_split_def)
    from py_int_year [OF this] Some show ?thesis by simp
  qed
  have "tv_split r (g_show g) (g_year g) sc0 (g_season g) ec0 (g_ep g) rest0
        \<and> (\<forall>sh' yr' sc' se' ec' ep' rest'.
              tv_split r sh' yr' sc' se' ec' ep' rest' \<longrightarrow> length (g_show g) \<le> length sh')
        \<and> parse_tv r = Inr (Some ?p)
        \<and> tv_show ?p = strip (collapse_ws (replace_dots (g_show g)))
        \<and> normalized (tv_show ?p)
        \<and> filter (\<lambda>c. \<not> is_space c) (tv_show ?p)
            = filter (\<lambda>c. \<not> is_space c \<and> c \<noteq> dot) (g_show g)
        \<and> tv_year ?p = map_option digits_val (g_year g)
        \<and> (case tv_year ?p of None \<Rightarrow> True | Some y \<Rightarrow> 1900 \<le> y \<and> y \<le> 2099)
        \<and> season ?p = digits_val (g_season g) \<and> episode ?p = digits_val (g_ep g)"
    using sp min p yr slug_to_name_normalized [of "g_show g"] slug_to_name_content [of "g_show g"]
    by (simp add: slug_to_name_def)
  then show ?thesis by blast
qed

lemma scenario_split:
  "tv_split scenario_name (str ''Show.Name'') (Some (str ''2020'')) 83 (str ''01'') 69
     (str ''02'') (str ''.1080p.WEB.x264-GRP'')"
  by (simp add: scenario_name_def tv_split_def year_part_def str_def dot_def newline_def
      is_S_def is_E_def is_decimal_low at_boundary_def is_word_low)

lemma scenario_parse:
  "parse_tv scenario_name
     = Inr (Some \<lparr>tv_show = str ''Show Name'', tv_year = Some 2020, season = 1, episode = 2\<rparr>)"
  by (simp add: scenario_name_def parse_eval)

theorem parse_tv_recovers_fields_witness:
  "tv_split scenario_name (str ''Show.Name'') (Some (str ''2020'')) 83 (str ''01'') 69
     (str ''02'') (str ''.1080p.WEB.x264-GRP'')
   \<and> parse_tv scenario_name
       = Inr (Some \<lparr>tv_show = str ''Show Name'', tv_year = Some 2020, season = 1, episode = 2\<rparr>)
   \<and> normalized (str ''Show Name'')"
proof -
  from parse_tv_recovers_fields [OF scenario_split]
  obtain p where "parse_tv scenario_name = Inr (Some p)" "normalized (tv_show p)" by blast
  with scenario_parse have "normalized (str ''Show Name'')" by simp
  with scenario_split scenario_parse show ?thesis by simp
qed

lemma movie_after_title_Some:
  "movie_after_title s = Some y \<Longrightarrow>
     \<exists>rest. s = dot # y @ rest \<and> is_year y \<and> at_boundary (Some (last y)) rest"
proof -
  assume a: "movie_after_title s = Some y"
  then obtain y' rest where dy: "dot_year s = Some (y', rest)"
    by (cases "dot_year s") (auto simp: movie_after_title_def)
  then obtain cs where s: "s = dot # cs" and yr: "year_re cs = Some (y', rest)"
    by (auto simp: dot_year_def split: list.splits if_splits)
  from year_re_Some [OF yr] have cs: "cs = y' @ rest" and iy: "is_year y'" by simp_all
  from iy obtain a b c d where y': "y' = [a, b, c, d]" by (cases y' rule: is_year.cases) auto
  with a dy have "y = y'" and "at_boundary (Some d) rest"
    by (auto simp: movie_after_title_def split: if_splits)
  with s cs iy y' show ?thesis by auto
qed


lemma movie_scan_Some:
  "movie_scan acc xs = Some g \<Longrightarrow>
     \<exists>u v. xs = u @ v \<and> u \<noteq> [] \<and> newline \<notin> set u \<and> g_title g = acc @ u
        \<and> movie_after_title v = Some (g_myear g)"
proof (induction xs arbitrary: acc)
  case Nil
  then show ?case by simp
next
  case (Cons c cs)
  from Cons.prems have nl: "c \<noteq> newline" by (auto split: if_splits)
  show ?case
  proof (cases "movie_after_title cs")
    case None
    with Cons.prems nl have "movie_scan (acc @ [c]) cs = Some g" by simp
    from Cons.IH [OF this] obtain u v where uv: "cs = u @ v" "u \<noteq> []" "newline \<notin> set u"
      "g_title g = (acc @ [c]) @ u" "movie_after_title v = Some (g_myear g)" by blast
    show ?thesis
      by (rule exI [of _ "c # u"], rule exI [of _ v]) (use uv nl in auto)
  next
    case (Some y)
    with Cons.prems nl have g: "g = \<lparr>g_title = acc @ [c], g_myear = y\<rparr>" by simp
    show ?thesis
      by (rule exI [of _ "[c]"], rule exI [of _ cs]) (use g Some nl in auto)
  qed
qed


lemma MOVIE_RE_Some:
  assumes "MOVIE_RE r = Some g"
  shows "\<exists>rest. movie_split r (g_title g) (g_myear g) rest"
proof -
  from assms have "movie_scan [] r = Some g" by (simp add: MOVIE_RE_def)
  from movie_scan_Some [OF this] obtain u v where uv: "r = u @ v" "u \<noteq> []" "newline \<notin> set u"
    "g_title g = u" "movie_after_title v = Some (g_myear g)" by auto
  from movie_after_title_Some [OF uv(5)] uv(1-4) show ?thesis
    by (auto simp: movie_split_def)
qed


lemma parse_movie_of_groups:
  assumes "MOVIE_RE r = Some g"
  shows "parse_movie r = Inr (Some \<lparr>title = slug_to_name (g_title g),
           movie_year = digits_val (g_myear g)\<rparr>)"
proof -
  from MOVIE_RE_Some [OF assms] have "is_year (g_myear g)" by (auto simp: movie_split_def)
  from py_int_year [OF this] assms show ?thesis by (simp add: parse_movie_def)
qed

lemma parse_movie_total: "\<exists>x. parse_movie r = Inr x"
proof (cases "MOVIE_RE r")
  case None
  then show ?thesis by (simp add: parse_movie_def)
next
  case (Some g)
  from parse_movie_of_groups [OF this] show ?thesis by blast
qed


subsection \<open>Unparseable names\<close>




subsection \<open>The primitives\<close>

lemma moves_of_simps [simp]:
  "moves_of [] = []"
  "moves_of (a @ b) = moves_of a @ moves_of b"
  "moves_of [Mkdir p] = []"
  "moves_of [RunCmd c] = []"
  "moves_of [Move s d] = [(s, d)]"
  by (simp_all add: moves_of_def)

lemma quiet_refl [simp]: "quiet w w"
  by (simp add: quiet_def)

lemma quiet_log_line [simp]: "quiet w (log_line m w') = quiet w w'"
  by (simp add: quiet_def log_line_def)

lemma quiet_trans: "quiet a b \<Longrightarrow> quiet b c \<Longrightarrow> quiet a c"
  by (simp add: quiet_def)

lemma ensure_dir_dry:
  "ensure_dir p False w
     = Inr (if path_exists (fs w) p then w else log_line (mkdir_line p) w)"
  by (simp add: ensure_dir_def mkdir_line_def)

lemma move_path_dry:
  "move_path src dst False w
     = Inr (log_line (move_line src dst)
              (if path_exists (fs w) (parent_of dst) then w
               else log_line (mkdir_line (parent_of dst)) w))"
  by (simp add: move_path_def ensure_dir_dry move_line_def)

lemma extract_rar_dry:
  "extract_rar t rar dest_dir False w
     = Inr ((True, str ''DRY_RUN''),
            log_line (unrar_line rar dest_dir)
              (if path_exists (fs w) dest_dir then w else log_line (mkdir_line dest_dir) w))"
  by (simp add: extract_rar_def ensure_dir_dry unrar_line_def Let_def)

lemma move_path_dry_quiet: "\<exists>w'. move_path src dst False w = Inr w' \<and> quiet w w'"
  by (simp add: move_path_dry)

lemma move_videos_dry:
  "\<exists>m' w'. move_videos dest_dir vs False (m, w) = Inr (m', w') \<and> quiet w w'"
proof (induction vs arbitrary: m w)
  case Nil
  then show ?case by simp
next
  case (Cons v vs)
  obtain w1 where w1: "move_path v (joinpath dest_dir (name_of v)) False w = Inr w1" "quiet w w1"
    using move_path_dry_quiet by blast
  from Cons [of True w1] obtain m' w' where
    "move_videos dest_dir vs False (True, w1) = Inr (m', w')" "quiet w1 w'" by blast
  with w1 show ?case using quiet_trans by auto
qed

lemma move_extless_dry:
  "\<exists>m' w'. move_extless rel dest_dir fl False (m, w) = Inr (m', w') \<and> quiet w w'"
proof (induction fl arbitrary: m w)
  case Nil
  then show ?case by simp
next
  case (Cons f fl)
  obtain w1 where w1: "move_path f (joinpath dest_dir (rel @ str ''.mkv'')) False w = Inr w1"
    "quiet w w1"
    using move_path_dry_quiet by blast
  from Cons [of True w1] obtain m' w' where
    "move_extless rel dest_dir fl False (True, w1) = Inr (m', w')" "quiet w1 w'" by blast
  with w1 show ?case using quiet_trans by (auto simp: Let_def)
qed

lemma retire_dry:
  "\<exists>res w'. retire e details folder False (m, w) = Inr (res, w') \<and> quiet w w'"
  by (simp add: retire_def ensure_dir_dry Let_def)

lemma process_body_dry:
  "\<exists>res w'. process_body e k rel dest_dir folder False w = Inr (res, w') \<and> quiet w w'"
proof -
  let ?w1 = "if path_exists (fs w) dest_dir then w else log_line (mkdir_line dest_dir) w"
  have q1: "quiet w ?w1" by simp
  have e1: "ensure_dir dest_dir False w = Inr ?w1" by (rule ensure_dir_dry)
  show ?thesis
  proof (cases "select_strategy (find_first_rar (fs ?w1) folder) (find_video_files (fs ?w1) folder)
                  (find_large_extensionless (fs ?w1) folder (100 * 1024 * 1024))")
    case (Archive r)
    obtain w2 where w2: "extract_rar (tool e) r dest_dir False ?w1 = Inr ((True, str ''DRY_RUN''), w2)"
      "quiet ?w1 w2"
      by (simp add: extract_rar_dry)
    obtain res w' where r: "retire e \<lparr>kind = k, release = rel, status = Ok, reason = None,
        dest = Some (path_str dest_dir), path = path_str folder, recycled_to = None\<rparr>
        folder False (True, w2) = Inr (res, w')" "quiet w2 w'"
      using retire_dry by blast
    have "quiet w w'" using q1 w2(2) r(2) quiet_trans by blast
    with e1 Archive w2(1) r(1) show ?thesis
      by (simp add: process_body_def Let_def del: quiet_log_line)
  next
    case (VideoFiles vs)
    obtain m w2 where w2: "move_videos dest_dir vs False (False, ?w1) = Inr (m, w2)" "quiet ?w1 w2"
      using move_videos_dry by blast
    obtain res w' where r: "retire e \<lparr>kind = k, release = rel, status = Ok, reason = None,
        dest = Some (path_str dest_dir), path = path_str folder, recycled_to = None\<rparr>
        folder False (m, w2) = Inr (res, w')" "quiet w2 w'"
      using retire_dry by blast
    have "quiet w w'" using q1 w2(2) r(2) quiet_trans by blast
    with e1 VideoFiles w2(1) r(1) show ?thesis
      by (simp add: process_body_def Let_def del: quiet_log_line)
  next
    case (LargeUnlabeledFiles fl)
    obtain m w2 where w2: "move_extless rel dest_dir fl False (False, ?w1) = Inr (m, w2)"
      "quiet ?w1 w2"
      using move_extless_dry by blast
    obtain res w' where r: "retire e \<lparr>kind = k, release = rel, status = Ok, reason = None,
        dest = Some (path_str dest_dir), path = path_str folder, recycled_to = None\<rparr>
        folder False (m, w2) = Inr (res, w')" "quiet w2 w'"
      using retire_dry by blast
    have "quiet w w'" using q1 w2(2) r(2) quiet_trans by blast
    with e1 LargeUnlabeledFiles w2(1) r(1) show ?thesis
      by (simp add: process_body_def Let_def del: quiet_log_line)
  next
    case NoMedia
    with e1 q1 show ?thesis
      by (simp add: process_body_def Let_def)
  qed
qed

lemma process_series_folder_dry:
  "\<exists>res w'. process_series_folder e folder False w = Inr (res, w') \<and> quiet w w'"
proof -
  obtain x where x: "parse_tv (name_of folder) = Inr x" using parse_tv_total by blast
  show ?thesis
  proof (cases x)
    case None
    with x show ?thesis by (simp add: process_series_folder_def Let_def)
  next
    case (Some parsed)
    with x process_body_dry show ?thesis by (simp add: process_series_folder_def Let_def)
  qed
qed

lemma process_movie_folder_dry:
  "\<exists>res w'. process_movie_folder e folder False w = Inr (res, w') \<and> quiet w w'"
proof -
  obtain x where x: "parse_movie (name_of folder) = Inr x" using parse_movie_total by blast
  show ?thesis
  proof (cases x)
    case None
    with x show ?thesis by (simp add: process_movie_folder_def Let_def)
  next
    case (Some parsed)
    with x process_body_dry show ?thesis by (simp add: process_movie_folder_def Let_def)
  qed
qed

subsection \<open>Dry run\<close>













subsection \<open>Creating directories\<close>

lemma fold_mkdir_Inl: "fold (mkdir_step t) qs (Inl e) = Inl e"
  by (induction qs) (simp_all add: mkdir_step_def)

lemma lookup_append_new:
  "lookup f q = None \<Longrightarrow> lookup (f @ [(q, Dir)]) q = Some Dir"
  by (auto simp: lookup_def map_add_def split: if_splits)

lemma lookup_append_old:
  "lookup f p \<noteq> None \<Longrightarrow> lookup (f @ [(q, Dir)]) p = lookup f p"
  by (auto simp: lookup_def map_add_def split: if_splits option.splits)

lemma mkdir_step_Inr:
  assumes "mkdir_step t q (Inr f) = Inr f'"
  shows "lookup f' q \<noteq> None" and "lookup f p \<noteq> None \<Longrightarrow> lookup f' p = lookup f p"
proof -
  show "lookup f' q \<noteq> None"
    using assms lookup_append_new [of f q]
    by (auto simp: mkdir_step_def split: option.splits node.splits)
  show "lookup f' p = lookup f p" if "lookup f p \<noteq> None"
    using assms that lookup_append_old [of f p q]
    by (auto simp: mkdir_step_def split: option.splits node.splits)
qed

lemma fold_mkdir_Inr:
  "fold (mkdir_step t) qs (Inr f) = Inr f' \<Longrightarrow>
     (\<forall>q \<in> set qs. lookup f' q \<noteq> None) \<and> (\<forall>p. lookup f p \<noteq> None \<longrightarrow> lookup f' p = lookup f p)"
proof (induction qs arbitrary: f)
  case Nil
  then show ?case by simp
next
  case (Cons q qs)
  show ?case
  proof (cases "mkdir_step t q (Inr f)")
    case (Inl e)
    with Cons.prems show ?thesis by (simp add: fold_mkdir_Inl)
  next
    case (Inr f1)
    with Cons.prems have "fold (mkdir_step t) qs (Inr f1) = Inr f'" by simp
    from Cons.IH [OF this] have ih: "\<forall>q \<in> set qs. lookup f' q \<noteq> None"
      "\<forall>p. lookup f1 p \<noteq> None \<longrightarrow> lookup f' p = lookup f1 p" by simp_all
    from mkdir_step_Inr [OF Inr] have st: "lookup f1 q \<noteq> None"
      "\<And>p. lookup f p \<noteq> None \<Longrightarrow> lookup f1 p = lookup f p" by simp_all
    from ih st show ?thesis by auto
  qed
qed

lemma mkdir_p_Inr:
  assumes "mkdir_p f p = Inr f'"
  shows "path_exists f' p" and "path_exists f q \<Longrightarrow> lookup f' q = lookup f q"
proof -
  from assms have "fold (mkdir_step p) (prefixes p) (Inr f) = Inr f'" by (simp add: mkdir_p_def)
  from fold_mkdir_Inr [OF this] have a: "\<forall>q \<in> set (prefixes p). lookup f' q \<noteq> None"
    and b: "\<forall>p. lookup f p \<noteq> None \<longrightarrow> lookup f' p = lookup f p" by simp_all
  from a show "path_exists f' p" by (simp add: path_exists_def)
  from b show "lookup f' q = lookup f q" if "path_exists f q"
    using that by (simp add: path_exists_def)
qed

subsection \<open>What the primitives perform\<close>

lemma ensure_dir_Inr:
  assumes "ensure_dir p run w = Inr w'"
  shows "audit_log w' = audit_log w"
    and "performed w' = performed w \<or> performed w' = performed w @ [Mkdir p]"
    and "moves_of (performed w') = moves_of (performed w)"
    and "set (log w) \<subseteq> set (log w')"
    and "run \<Longrightarrow> path_exists (fs w') p"
    and "path_exists (fs w) q \<Longrightarrow> lookup (fs w') q = lookup (fs w) q"
  using assms mkdir_p_Inr [of "fs w" p]
  by (auto simp: ensure_dir_def log_line_def split: if_splits sum.splits)

lemma ensure_dir_exists: "path_exists (fs w) p \<Longrightarrow> ensure_dir p run w = Inr w"
  by (simp add: ensure_dir_def)

lemma extract_rar_Inr:
  assumes "extract_rar t rar d run w = Inr ((ok, out), w')"
  shows "audit_log w' = audit_log w"
    and "moves_of (performed w') = moves_of (performed w)"
    and "set (log w) \<subseteq> set (log w')"
proof -
  from assms obtain w1 where w1: "ensure_dir d run w = Inr w1"
    by (cases "ensure_dir d run w") (auto simp: extract_rar_def)
  note e = ensure_dir_Inr [OF w1]
  from assms w1 e(1) show "audit_log w' = audit_log w"
    by (auto simp: extract_rar_def Let_def log_line_def split: if_splits sum.splits)
  from assms w1 e(3) show "moves_of (performed w') = moves_of (performed w)"
    by (auto simp: extract_rar_def Let_def log_line_def split: if_splits sum.splits)
  from assms w1 e(4) show "set (log w) \<subseteq> set (log w')"
    by (auto simp: extract_rar_def Let_def log_line_def split: if_splits sum.splits)
qed

lemma move_path_Inr:
  assumes "move_path s d run w = Inr w'"
  shows "audit_log w' = audit_log w"
    and "moves_of (performed w') = moves_of (performed w) @ (if run then [(s, d)] else [])"
    and "set (log w) \<subseteq> set (log w')"
    and "move_line s d \<in> set (log w')"
proof -
  from assms obtain w1 where w1: "ensure_dir (parent_of d) run w = Inr w1"
    by (cases "ensure_dir (parent_of d) run w") (auto simp: move_path_def)
  note e = ensure_dir_Inr [OF w1]
  from assms w1 e(1) show "audit_log w' = audit_log w"
    by (auto simp: move_path_def log_line_def split: if_splits sum.splits)
  from assms w1 e(3)
  show "moves_of (performed w') = moves_of (performed w) @ (if run then [(s, d)] else [])"
    by (auto simp: move_path_def log_line_def split: if_splits sum.splits)
  from assms w1 e(4) show "set (log w) \<subseteq> set (log w')"
    by (auto simp: move_path_def log_line_def split: if_splits sum.splits)
  from assms w1 show "move_line s d \<in> set (log w')"
    by (auto simp: move_path_def log_line_def move_line_def split: if_splits sum.splits)
qed

lemma move_videos_Inr:
  "move_videos dest_dir vs run (m, w) = Inr (m', w') \<Longrightarrow>
     audit_log w' = audit_log w
     \<and> moves_of (performed w')
         = moves_of (performed w)
           @ (if run then map (\<lambda>v. (v, joinpath dest_dir (name_of v))) vs else [])
     \<and> set (log w) \<subseteq> set (log w')
     \<and> (\<forall>v \<in> set vs. move_line v (joinpath dest_dir (name_of v)) \<in> set (log w'))
     \<and> m' = (m \<or> vs \<noteq> [])"
proof (induction vs arbitrary: m w)
  case Nil
  then show ?case by simp
next
  case (Cons v vs)
  from Cons.prems obtain w1 where w1: "move_path v (joinpath dest_dir (name_of v)) run w = Inr w1"
    and r: "move_videos dest_dir vs run (True, w1) = Inr (m', w')"
    by (auto split: sum.splits)
  note mp = move_path_Inr [OF w1]
  from Cons.IH [OF r] mp show ?case by auto
qed

lemma move_extless_Inr:
  "move_extless rel dest_dir fl run (m, w) = Inr (m', w') \<Longrightarrow>
     audit_log w' = audit_log w
     \<and> moves_of (performed w')
         = moves_of (performed w)
           @ (if run then map (\<lambda>f. (f, joinpath dest_dir (rel @ str ''.mkv''))) fl else [])
     \<and> set (log w) \<subseteq> set (log w')
     \<and> (\<forall>f \<in> set fl. move_line f (joinpath dest_dir (rel @ str ''.mkv'')) \<in> set (log w'))
     \<and> m' = (m \<or> fl \<noteq> [])"
proof (induction fl arbitrary: m w)
  case Nil
  then show ?case by simp
next
  case (Cons f fl)
  from Cons.prems obtain w1
    where w1: "move_path f (joinpath dest_dir (rel @ str ''.mkv'')) run w = Inr w1"
    and r: "move_extless rel dest_dir fl run (True, w1) = Inr (m', w')"
    by (auto simp: Let_def split: sum.splits)
  note mp = move_path_Inr [OF w1]
  from Cons.IH [OF r] mp show ?case by auto
qed

lemma retire_Inr:
  assumes "retire e details folder run (m, w) = Inr (res, w')"
  shows "status res = status details" and "reason res = reason details"
    and "audit_log w' = audit_log w" and "set (log w) \<subseteq> set (log w')"
    and "\<not> m \<Longrightarrow> res = details \<and> w' = w"
    and "m \<Longrightarrow> \<exists>rd. recycled_to res = Some (path_str rd)
            \<and> moves_of (performed w')
                = moves_of (performed w) @ (if run then [(folder, rd)] else [])"
proof -
  show "\<not> m \<Longrightarrow> res = details \<and> w' = w" using assms by (simp add: retire_def)
  show "status res = status details" "reason res = reason details"
    using assms by (auto simp: retire_def Let_def split: if_splits sum.splits)
  let ?rd = "unique_recycle_dest e (fs w) folder"
  show "audit_log w' = audit_log w"
  proof (cases m)
    case True
    with assms obtain w1 where w1: "ensure_dir (parent_of ?rd) run w = Inr w1"
      by (cases "ensure_dir (parent_of ?rd) run w") (auto simp: retire_def Let_def)
    from assms True w1 ensure_dir_Inr(1) [OF w1] show ?thesis
      by (auto simp: retire_def Let_def log_line_def split: if_splits sum.splits)
  qed (use assms in \<open>simp add: retire_def\<close>)
  show "set (log w) \<subseteq> set (log w')"
  proof (cases m)
    case True
    with assms obtain w1 where w1: "ensure_dir (parent_of ?rd) run w = Inr w1"
      by (cases "ensure_dir (parent_of ?rd) run w") (auto simp: retire_def Let_def)
    from assms True w1 ensure_dir_Inr(4) [OF w1] show ?thesis
      by (auto simp: retire_def Let_def log_line_def split: if_splits sum.splits)
  qed (use assms in \<open>simp add: retire_def\<close>)
  show "\<exists>rd. recycled_to res = Some (path_str rd)
            \<and> moves_of (performed w')
                = moves_of (performed w) @ (if run then [(folder, rd)] else [])" if m
  proof -
    from assms that obtain w1 where w1: "ensure_dir (parent_of ?rd) run w = Inr w1"
      by (cases "ensure_dir (parent_of ?rd) run w") (auto simp: retire_def Let_def)
    from assms that w1 ensure_dir_Inr(3) [OF w1] show ?thesis
      by (auto simp: retire_def Let_def log_line_def split: if_splits sum.splits)
  qed
qed

subsection \<open>The item processor\<close>

lemma process_series_folder_body:
  "parse_tv (name_of folder) = Inr (Some parsed) \<Longrightarrow>
     process_series_folder e folder run w
       = process_body e TV (name_of folder) (tv_dest_dir parsed) folder run w"
  by (simp add: process_series_folder_def Let_def)

lemma process_movie_folder_body:
  "parse_movie (name_of folder) = Inr (Some parsed) \<Longrightarrow>
     process_movie_folder e folder run w
       = process_body e Movie (name_of folder) (movie_dest_dir parsed) folder run w"
  by (simp add: process_movie_folder_def Let_def)

lemma process_body_by_strategy:
  assumes "ensure_dir dest_dir run w = Inr w1"
  shows "process_body e k rel dest_dir folder run w =
     (let details = \<lparr>kind = k, release = rel, status = Ok, reason = None,
                      dest = Some (path_str dest_dir), path = path_str folder,
                      recycled_to = None\<rparr>
      in case content_strategy (fs w1) folder of
           Archive r \<Rightarrow>
             (case extract_rar (tool e) r dest_dir run w1 of
                Inl er \<Rightarrow> Inl er
              | Inr ((ok, out), w2) \<Rightarrow>
                  if \<not> ok then
                    Inr (details\<lparr>status := Error, reason := Some (str ''unrar_failed'')\<rparr>,
                         audit (Unrar_failed rel (path_str r) (drop (length out - 2000) out))
                           (log_line (str ''ERROR unrar failed for '' @ path_str r
                                        @ str '' (leaving source)'') w2))
                  else retire e details folder run (True, w2))
         | VideoFiles vs \<Rightarrow>
             (case move_videos dest_dir vs run (False, w1) of
                Inl er \<Rightarrow> Inl er
              | Inr mw \<Rightarrow> retire e details folder run mw)
         | LargeUnlabeledFiles fl \<Rightarrow>
             (case move_extless rel dest_dir fl run (False, w1) of
                Inl er \<Rightarrow> Inl er
              | Inr mw \<Rightarrow> retire e details folder run mw)
         | NoMedia \<Rightarrow>
             Inr (details\<lparr>status := Error, reason := Some (str ''no_media_found'')\<rparr>,
                  log_line (str ''IRREGULAR: no rar/video files found in ''
                              @ path_str folder) w1))"
  using assms by (simp add: process_body_def content_strategy_def Let_def)

lemma process_body_error:
  assumes "process_body e k rel dest_dir folder run w = Inr (res, w')" and "status res = Error"
  shows "recycled_to res = None \<and> moves_of (performed w') = moves_of (performed w)
         \<and> (reason res = Some (str ''unrar_failed'') \<or> reason res = Some (str ''no_media_found''))"
proof -
  from assms(1) obtain w1 where w1: "ensure_dir dest_dir run w = Inr w1"
    by (cases "ensure_dir dest_dir run w") (auto simp: process_body_def)
  note e1 = ensure_dir_Inr [OF w1]
  note pb = assms(1) [unfolded process_body_by_strategy [OF w1] Let_def]
  let ?details = "\<lparr>kind = k, release = rel, status = Ok, reason = None,
                    dest = Some (path_str dest_dir), path = path_str folder,
                    recycled_to = None\<rparr>"
  show ?thesis
  proof (cases "content_strategy (fs w1) folder")
    case (Archive r)
    with pb obtain ok out w2 where x: "extract_rar (tool e) r dest_dir run w1 = Inr ((ok, out), w2)"
      by (cases "extract_rar (tool e) r dest_dir run w1") auto
    note e2 = extract_rar_Inr [OF x]
    show ?thesis
    proof (cases ok)
      case True
      with pb Archive x have "retire e ?details folder run (True, w2) = Inr (res, w')" by simp
      from retire_Inr(1) [OF this] assms(2) show ?thesis by simp
    next
      case False
      with pb Archive x e1(3) e2(2) show ?thesis
        by (auto simp: audit_def log_line_def)
    qed
  next
    case (VideoFiles vs)
    with pb obtain mw where "retire e ?details folder run mw = Inr (res, w')"
      by (cases "move_videos dest_dir vs run (False, w1)") auto
    then have "status res = Ok" using retire_Inr(1) [of e ?details folder run "fst mw" "snd mw"]
      by simp
    with assms(2) show ?thesis by simp
  next
    case (LargeUnlabeledFiles fl)
    with pb obtain mw where "retire e ?details folder run mw = Inr (res, w')"
      by (cases "move_extless rel dest_dir fl run (False, w1)") auto
    then have "status res = Ok" using retire_Inr(1) [of e ?details folder run "fst mw" "snd mw"]
      by simp
    with assms(2) show ?thesis by simp
  next
    case NoMedia
    with pb e1(3) show ?thesis by (auto simp: log_line_def)
  qed
qed

text \<open>
  C1: whenever a processor returns a result with status error, whatever the reason
  (\<open>unparseable\<close>, \<open>no_media_found\<close> or \<open>unrar_failed\<close>), the result carries no
  \<open>recycled_to\<close> path and no move was performed for the item: the source folder was not
  moved to the recycle area.
\<close>

theorem error_result_never_retires:
  assumes "process_series_folder e folder run w = Inr (res, w')
           \<or> process_movie_folder e folder run w = Inr (res, w')"
    and "status res = Error"
  shows "recycled_to res = None
         \<and> moves_of (performed w') = moves_of (performed w)
         \<and> (reason res = Some (str ''unparseable'') \<or> reason res = Some (str ''no_media_found'')
              \<or> reason res = Some (str ''unrar_failed''))"
  using assms(1)
proof
  assume a: "process_series_folder e folder run w = Inr (res, w')"
  obtain x where x: "parse_tv (name_of folder) = Inr x" using parse_tv_total by blast
  show ?thesis
  proof (cases x)
    case None
    with a x show ?thesis by (auto simp: process_series_folder_def Let_def log_line_def)
  next
    case (Some parsed)
    with a x have "process_body e TV (name_of folder) (tv_dest_dir parsed) folder run w
                     = Inr (res, w')"
      by (simp add: process_series_folder_body)
    from process_body_error [OF this assms(2)] show ?thesis by blast
  qed
next
  assume a: "process_movie_folder e folder run w = Inr (res, w')"
  obtain x where x: "parse_movie (name_of folder) = Inr x" using parse_movie_total by blast
  show ?thesis
  proof (cases x)
    case None
    with a x show ?thesis by (auto simp: process_movie_folder_def Let_def log_line_def)
  next
    case (Some parsed)
    with a x have "process_body e Movie (name_of folder) (movie_dest_dir parsed) folder run w
                     = Inr (res, w')"
      by (simp add: process_movie_folder_body)
    from process_body_error [OF this assms(2)] show ?thesis by blast
  qed
qed

lemmas world_eval = fs_eval process_series_folder_def process_body_def ensure_dir_def
  extract_rar_def move_path_def retire_def unique_recycle_dest_def recycle_cand_def
  select_strategy_def find_first_rar_def find_video_files_def find_large_extensionless_def
  mkdir_p_def mkdir_step_def shutil_move_def rename_entry_def log_line_def audit_def
  path_str_def join_sp_def DST_TV_def DST_MOVIES_def MEDIA_def COMPLETE_def RECYCLE_def
  str_of_int_def fmt_02d_def str_lower_def lower_char_def VIDEO_EXTS_def Let_def suffix_def
  demo_folder_def demo_both_def demo_env_def failing_tool_def tv_dest_dir_def mkdir_line_def

lemma str_of_nat_small: "n < 10 \<Longrightarrow> str_of_nat n = [48 + n]"
  by (simp add: str_of_nat.simps)

lemma parse_demo: "parse_tv (name_of demo_folder)
  = Inr (Some \<lparr>tv_show = str ''Show'', tv_year = None, season = 1, episode = 2\<rparr>)"
  by (simp add: demo_folder_def name_of_def parse_eval)

lemma archive_run:
  "\<exists>res w'. process_series_folder demo_env demo_folder True archive_world = Inr (res, w')
     \<and> status res = Error \<and> reason res = Some (str ''unrar_failed'')"
  using parse_demo
  by (simp add: archive_world_def world_eval str_of_nat_small)

theorem error_result_never_retires_witness:
  "\<exists>res w'. process_series_folder demo_env demo_folder True archive_world = Inr (res, w')
     \<and> status res = Error \<and> reason res = Some (str ''unrar_failed'')
     \<and> recycled_to res = None \<and> moves_of (performed w') = []"
proof -
  from archive_run obtain res w'
    where r: "process_series_folder demo_env demo_folder True archive_world = Inr (res, w')"
      "status res = Error" "reason res = Some (str ''unrar_failed'')" by blast
  have "moves_of (performed archive_world) = []" by (simp add: archive_world_def)
  with error_result_never_retires [OF disjI1 [OF r(1)] r(2)] r show ?thesis by auto
qed

subsection \<open>Failed extraction\<close>

text \<open>
  C4: when the Archive strategy is selected and the extraction tool exits with a nonzero
  code, the item result has status error and reason \<open>unrar_failed\<close>; the audit log
  receives one \<open>unrar_failed\<close> event whose output is the last 2000 characters of the
  tool's output (all of it when it is shorter); and retirement is not attempted: the result
  has no \<open>recycled_to\<close> path and no move is performed. \<open>process_body\<close> is the common
  body of both processors.
\<close>

theorem failed_extraction_is_error:
  assumes "ensure_dir dest_dir True w = Inr w1"
    and "content_strategy (fs w1) folder = Archive r"
    and "tool e [str ''unrar'', str ''e'', str ''-o+'', path_str r, path_str dest_dir] (fs w1)
           = Inr (code, out, fs')"
    and "code \<noteq> 0"
  shows "\<exists>res w'. process_body e k rel dest_dir folder True w = Inr (res, w')
           \<and> status res = Error \<and> reason res = Some (str ''unrar_failed'')
           \<and> recycled_to res = None
           \<and> audit_log w'
               = audit_log w @ [Unrar_failed rel (path_str r) (drop (length out - 2000) out)]
           \<and> length (drop (length out - 2000) out) = min 2000 (length out)
           \<and> suffix (drop (length out - 2000) out) out
           \<and> moves_of (performed w') = moves_of (performed w)"
proof -
  note e1 = ensure_dir_Inr [OF assms(1)]
  from e1(5) have ex: "path_exists (fs w1) dest_dir" by simp
  let ?cmd = "[str ''unrar'', str ''e'', str ''-o+'', path_str r, path_str dest_dir]"
  let ?w2 = "log_line (str ''unrar '' @ join_sp (tl ?cmd)) w1"
  have x: "extract_rar (tool e) r dest_dir True w1
             = Inr ((False, out), ?w2\<lparr>fs := fs', performed := performed ?w2 @ [RunCmd ?cmd]\<rparr>)"
    using assms(3,4) ex by (simp add: extract_rar_def ensure_dir_exists Let_def log_line_def)
  have "length (drop (length out - 2000) out) = min 2000 (length out)" by auto
  moreover have "suffix (drop (length out - 2000) out) out" by (rule suffix_drop)
  ultimately show ?thesis
    using process_body_by_strategy [OF assms(1), of e k rel folder] assms(2) x e1(1,3)
    by (simp add: Let_def audit_def log_line_def)
qed

lemma archive_ensured:
  "\<exists>w1. ensure_dir show_dest True archive_world = Inr w1
      \<and> content_strategy (fs w1) demo_folder = Archive (demo_folder @ [str ''ep.rar''])"
  by (simp add: archive_world_def show_dest_def content_strategy_def world_eval)

theorem failed_extraction_is_error_witness:
  "\<exists>res w'. process_body demo_env TV (str ''Show.S01E02'') show_dest demo_folder True archive_world
               = Inr (res, w')
     \<and> status res = Error \<and> reason res = Some (str ''unrar_failed'')
     \<and> recycled_to res = None
     \<and> audit_log w' = [Unrar_failed (str ''Show.S01E02'')
                          (path_str (demo_folder @ [str ''ep.rar''])) (str ''cannot open archive'')]"
proof -
  from archive_ensured obtain w1 where w1: "ensure_dir show_dest True archive_world = Inr w1"
    "content_strategy (fs w1) demo_folder = Archive (demo_folder @ [str ''ep.rar''])" by blast
  have t: "tool demo_env [str ''unrar'', str ''e'', str ''-o+'',
             path_str (demo_folder @ [str ''ep.rar'']), path_str show_dest] (fs w1)
           = Inr (3, str ''cannot open archive'', fs w1)"
    by (simp add: demo_env_def failing_tool_def)
  have a: "audit_log archive_world = []" by (simp add: archive_world_def)
  have d: "drop (length (str ''cannot open archive'') - 2000) (str ''cannot open archive'')
             = str ''cannot open archive''"
    by (simp add: str_def)
  from failed_extraction_is_error [OF w1 t, of TV "str ''Show.S01E02''"] a d
  show ?thesis by auto
qed

subsection \<open>No media\<close>





subsection \<open>Large files without extension\<close>

text \<open>
  C10: when the LargeUnlabeledFiles strategy is selected, every file of the list is moved
  to the one path \<open>dest_dir / (release + ".mkv")\<close>: the target does not depend on the file,
  so from the second file on each move goes to a path that an earlier move already used.
  The move of each file to that path is logged in both modes; in performing mode the moves
  performed for the item are these, in the order of the list, followed by the retirement
  of the folder.
\<close>

theorem large_files_share_one_target:
  assumes "ensure_dir dest_dir run w = Inr w1"
    and "content_strategy (fs w1) folder = LargeUnlabeledFiles fl"
    and "process_body e k rel dest_dir folder run w = Inr (res, w')"
  shows "(\<forall>f \<in> set fl. move_line f (joinpath dest_dir (rel @ str ''.mkv'')) \<in> set (log w'))
         \<and> (\<exists>rd. moves_of (performed w')
                   = moves_of (performed w)
                     @ (if run
                        then map (\<lambda>f. (f, joinpath dest_dir (rel @ str ''.mkv''))) fl
                             @ [(folder, rd)]
                        else []))"
proof -
  note e1 = ensure_dir_Inr [OF assms(1)]
  let ?details = "\<lparr>kind = k, release = rel, status = Ok, reason = None,
                    dest = Some (path_str dest_dir), path = path_str folder,
                    recycled_to = None\<rparr>"
  note pb = assms(3) [unfolded process_body_by_strategy [OF assms(1)] Let_def]
  from pb assms(2) obtain m w2
    where mv: "move_extless rel dest_dir fl run (False, w1) = Inr (m, w2)"
    and rt: "retire e ?details folder run (m, w2) = Inr (res, w')"
    by (cases "move_extless rel dest_dir fl run (False, w1)") auto
  from assms(2) have ne: "fl \<noteq> []"
    by (auto simp: content_strategy_def select_strategy_def split: option.splits if_splits)
  from move_extless_Inr [OF mv] ne have mx:
    "moves_of (performed w2)
       = moves_of (performed w1)
         @ (if run then map (\<lambda>f. (f, joinpath dest_dir (rel @ str ''.mkv''))) fl else [])"
    "\<forall>f \<in> set fl. move_line f (joinpath dest_dir (rel @ str ''.mkv'')) \<in> set (log w2)"
    "m" by simp_all
  from retire_Inr(4) [OF rt] mx(2)
  have 1: "\<forall>f \<in> set fl. move_line f (joinpath dest_dir (rel @ str ''.mkv'')) \<in> set (log w')"
    by blast
  from retire_Inr(6) [OF rt mx(3)] obtain rd where
    "moves_of (performed w') = moves_of (performed w2) @ (if run then [(folder, rd)] else [])"
    by blast
  with mx(1) e1(3) have "moves_of (performed w')
      = moves_of (performed w)
        @ (if run then map (\<lambda>f. (f, joinpath dest_dir (rel @ str ''.mkv''))) fl @ [(folder, rd)]
           else [])" by simp
  with 1 show ?thesis by blast
qed

lemma large_ensured:
  "\<exists>w1. ensure_dir show_dest True large_world = Inr w1
      \<and> content_strategy (fs w1) demo_folder
          = LargeUnlabeledFiles [demo_folder @ [str ''blob1''], demo_folder @ [str ''blob2'']]"
  by (simp add: large_world_def show_dest_def content_strategy_def world_eval)

lemma large_run:
  "\<exists>res w'. process_body demo_env TV (str ''Show.S01E02'') show_dest demo_folder True large_world
     = Inr (res, w')"
  by (simp add: large_world_def show_dest_def world_eval str_of_nat_small)

theorem large_files_share_one_target_witness:
  "\<exists>res w' rd. process_body demo_env TV (str ''Show.S01E02'') show_dest demo_folder True
                  large_world = Inr (res, w')
     \<and> moves_of (performed w')
         = [(demo_folder @ [str ''blob1''], show_dest @ [str ''Show.S01E02.mkv'']),
            (demo_folder @ [str ''blob2''], show_dest @ [str ''Show.S01E02.mkv'']),
            (demo_folder, rd)]"
proof -
  from large_ensured obtain w1 where w1: "ensure_dir show_dest True large_world = Inr w1"
    "content_strategy (fs w1) demo_folder
       = LargeUnlabeledFiles [demo_folder @ [str ''blob1''], demo_folder @ [str ''blob2'']]"
    by blast
  from large_run obtain res w' where r: "process_body demo_env TV (str ''Show.S01E02'') show_dest
    demo_folder True large_world = Inr (res, w')" by blast
  have p: "moves_of (performed large_world) = []" by (simp add: large_world_def)
  have j: "joinpath show_dest (str ''Show.S01E02'' @ str ''.mkv'')
             = show_dest @ [str ''Show.S01E02.mkv'']"
    by (simp add: joinpath_def str_def)
  from large_files_share_one_target [OF w1 r] p j r show ?thesis by auto
qed

subsection \<open>The recycle destination\<close>

lemma path_exists_iff: "path_exists fsys p \<longleftrightarrow> p = [] \<or> p \<in> fst ` set fsys"
  using map_of_eq_None_iff [of fsys p] by (auto simp: path_exists_def lookup_def)

text \<open>
  As long as the plain destination or one of the 999 numbered candidates is free, the
  destination returned is the first free one, and it does not exist.
\<close>

lemma unique_recycle_dest_fresh:
  assumes "\<not> path_exists fsys (joinpath (joinpath RECYCLE (today e)) (name_of folder))
           \<or> (\<exists>i \<in> {1..<1000}. \<not> path_exists fsys (recycle_cand e folder i))"
  shows "\<not> path_exists fsys (unique_recycle_dest e fsys folder)"
proof (cases "path_exists fsys (joinpath (joinpath RECYCLE (today e)) (name_of folder))")
  case False
  then show ?thesis by (simp add: unique_recycle_dest_def)
next
  case True
  with assms obtain i where "i \<in> set [1..<1000]" "\<not> path_exists fsys (recycle_cand e folder i)"
    by auto
  then have "find (\<lambda>i. \<not> path_exists fsys (recycle_cand e folder i)) [1..<1000] \<noteq> None"
    by (auto simp: find_None_iff)
  then obtain j where j: "find (\<lambda>i. \<not> path_exists fsys (recycle_cand e folder i)) [1..<1000]
                            = Some j" by blast
  from find_SomeD [OF j] True j show ?thesis by (simp add: unique_recycle_dest_def)
qed

lemma crowded_base:
  "path_exists crowded_fs (joinpath (joinpath RECYCLE (today crowded_env)) (name_of demo_folder))"
  by (simp add: path_exists_iff crowded_fs_def)

lemma crowded_cand:
  assumes "1 \<le> i" "i < 1000"
  shows "path_exists crowded_fs (recycle_cand crowded_env demo_folder i)"
proof -
  from assms have "i \<in> set [1..<1000]" by simp
  then have "(recycle_cand crowded_env demo_folder i, Dir)
               \<in> set (map (\<lambda>i. (recycle_cand crowded_env demo_folder i, Dir)) [1..<1000])"
    by (rule imageI [of i "set [1..<1000]" "\<lambda>i. (recycle_cand crowded_env demo_folder i, Dir)",
          unfolded set_map [symmetric]])
  then have "(recycle_cand crowded_env demo_folder i, Dir) \<in> set crowded_fs"
    by (simp add: crowded_fs_def)
  then have "recycle_cand crowded_env demo_folder i \<in> fst ` set crowded_fs" by force
  then show ?thesis by (simp add: path_exists_iff)
qed

text \<open>
  C6 at the failing input: the date folder holds the folder name and all of its 999
  numbered variants, and the process identifier is 7. The destination returned is the
  name suffixed with \<open>.7\<close>, which exists.
\<close>

theorem unique_recycle_dest_pid_collision:
  "unique_recycle_dest crowded_env crowded_fs demo_folder
     = recycle_cand crowded_env demo_folder 7
   \<and> path_exists crowded_fs (unique_recycle_dest crowded_env crowded_fs demo_folder)"
proof -
  have "find (\<lambda>i. \<not> path_exists crowded_fs (recycle_cand crowded_env demo_folder i)) [1..<1000]
          = None"
    using crowded_cand by (auto simp: find_None_iff)
  with crowded_base
  have "unique_recycle_dest crowded_env crowded_fs demo_folder
          = recycle_cand crowded_env demo_folder (pid crowded_env)"
    by (simp add: unique_recycle_dest_def)
  moreover have "pid crowded_env = 7" by (simp add: crowded_env_def)
  ultimately show ?thesis using crowded_cand [of 7] by simp
qed

end
